theory Spec2Isabelle
  imports Main "HOL-Library.Multiset" "HOL-Library.Code_Target_Numeral"
begin

section \<open>Values of the monitoring API and of the dashboard\<close>

text \<open>
  The numbers that the monitoring API delivers (ids, status codes, log types, unix
  timestamps, durations in seconds) are integers: a field of type \<open>int\<close> holds the integer
  written in the JSON answer. Strings are lists of 8-bit code units. A value that may be
  \<^verbatim>\<open>undefined\<close> is an \<open>option\<close>, with \<open>None\<close> for \<^verbatim>\<open>undefined\<close>. An exception is a value
  of \<open>js_error\<close> on the left of a sum.
\<close>

datatype js_error = TypeError | RangeError | ApiError string | TransportError string

subsection \<open>Numbers\<close>

text \<open>
  A number of JavaScript is an IEEE 754 double. The values that arise from adding integers
  are the doubles whose value is an integer, the two infinities and \<^verbatim>\<open>NaN\<close>.
  \<open>to_double x\<close> is the double nearest to the integer \<open>x\<close>, ties going to the even
  mantissa: up to \<open>2 ^ 53\<close> every integer is a double, from there on the doubles are
  \<open>ulp\<close> apart, and what rounds to \<open>2 ^ 1024\<close> or beyond is infinite. It is what the JSON
  parser makes of an integer, and \<open>js_add\<close>, the operator \<^verbatim>\<open>+\<close> on numbers, is the exact
  sum rounded in this way.
\<close>

datatype jsnum = Fin int | PInf | NInf | NaN

fun ulp :: "nat \<Rightarrow> nat" where
  "ulp n = (if n < 2 ^ 53 then 1 else 2 * ulp (n div 2))"

definition round_even :: "int \<Rightarrow> int \<Rightarrow> int" where
  "round_even x q =
     (let d = x div q; r = x mod q
      in if 2 * r < q then d * q
         else if q < 2 * r then (d + 1) * q
         else if even d then d * q else (d + 1) * q)"

definition to_double :: "int \<Rightarrow> jsnum" where
  "to_double x =
     (let r = round_even x (int (ulp (nat \<bar>x\<bar>)))
      in if 2 ^ 1024 \<le> r then PInf else if r \<le> - (2 ^ 1024) then NInf else Fin r)"

fun js_add :: "jsnum \<Rightarrow> jsnum \<Rightarrow> jsnum" where
  "js_add (Fin a) (Fin b) = to_double (a + b)"
| "js_add (Fin a) PInf = PInf"
| "js_add (Fin a) NInf = NInf"
| "js_add (Fin a) NaN = NaN"
| "js_add PInf (Fin b) = PInf"
| "js_add PInf PInf = PInf"
| "js_add PInf NInf = NaN"
| "js_add PInf NaN = NaN"
| "js_add NInf (Fin b) = NInf"
| "js_add NInf PInf = NaN"
| "js_add NInf NInf = NInf"
| "js_add NInf NaN = NaN"
| "js_add NaN y = NaN"

subsection \<open>Records\<close>

record log =
  type_l :: int
  datetime :: int
  duration :: int

record monitor =
  id_m :: int
  friendly_name :: string
  url_m :: string
  status_m :: int
  custom_uptime_ranges :: string
  logs :: "log list"

text \<open>The objects \<^verbatim>\<open>{ times, duration }\<close> of \<^verbatim>\<open>down\<close> and \<^verbatim>\<open>total\<close>.\<close>

record counts =
  times_n :: jsnum
  duration_n :: jsnum

record ('d, 'u) bucket =
  date :: 'd
  uptime :: 'u
  down :: counts

record ('d, 'u) site =
  id_s :: int
  name_s :: string
  url_s :: string
  average :: 'u
  daily :: "('d, 'u) bucket list"
  total :: counts
  status_s :: string

text \<open>
  What the module imports or reads from its environment: the build-time variables of
  \<^verbatim>\<open>import.meta.env\<close>, \<^verbatim>\<open>formatNumber\<close> of \<^verbatim>\<open>./timeTools\<close> (applied to a string or to
  \<^verbatim>\<open>undefined\<close>), and the operations of the dayjs library on its date objects \<open>'d\<close>:
  \<^verbatim>\<open>dayjs.unix(t)\<close>, \<^verbatim>\<open>d.format("YYYYMMDD")\<close>, \<^verbatim>\<open>d.subtract(n, "day")\<close>, \<^verbatim>\<open>d.add(n, "day")\<close> and
  \<^verbatim>\<open>d.unix()\<close>. None of them is defined in this module, so they are parameters.
\<close>

record ('d, 'u) env =
  DEV :: bool
  VITE_GLOBAL_API :: "string option"
  VITE_SITE_SORT :: "string option"
  formatNumber :: "string option \<Rightarrow> 'u"
  dayjs_unix :: "int \<Rightarrow> 'd"
  dayjs_format :: "'d \<Rightarrow> string"
  dayjs_subtract :: "'d \<Rightarrow> nat \<Rightarrow> 'd"
  dayjs_add :: "'d \<Rightarrow> nat \<Rightarrow> 'd"
  dayjs_to_unix :: "'d \<Rightarrow> int"

section \<open>String and array built-ins\<close>

text \<open>\<^verbatim>\<open>s.split(c)\<close> for a one-character separator: never empty, \<^verbatim>\<open>"".split(c)\<close> is \<^verbatim>\<open>[""]\<close>.\<close>

primrec split_on :: "char \<Rightarrow> string \<Rightarrow> string list" where
  "split_on c [] = [[]]"
| "split_on c (x # xs) =
     (if x = c then [] # split_on c xs
      else (case split_on c xs of [] \<Rightarrow> [[x]] | w # ws \<Rightarrow> (x # w) # ws))"

text \<open>\<^verbatim>\<open>xs.join(sep)\<close>.\<close>

fun join :: "string \<Rightarrow> string list \<Rightarrow> string" where
  "join sep [] = []"
| "join sep [x] = x"
| "join sep (x # y # ys) = x @ sep @ join sep (y # ys)"

text \<open>
  \<^verbatim>\<open>s.trim()\<close>: the white space and line terminators of ECMAScript among the code units
  below 256 are TAB, LF, VT, FF, CR, SPACE and NBSP.
\<close>

definition is_ws :: "char \<Rightarrow> bool" where
  "is_ws c = (of_char c \<in> {9, 10, 11, 12, 13, 32, 160 :: nat})"

definition trim :: "string \<Rightarrow> string" where
  "trim s = rev (dropWhile is_ws (rev (dropWhile is_ws s)))"

text \<open>\<^verbatim>\<open>xs.indexOf(x)\<close>: the first index of \<open>x\<close>, or \<open>-1\<close>.\<close>

fun indexOf :: "'a list \<Rightarrow> 'a \<Rightarrow> int" where
  "indexOf [] x = - 1"
| "indexOf (y # ys) x =
     (if y = x then 0 else (let r = indexOf ys x in if r = - 1 then - 1 else r + 1))"

text \<open>\<^verbatim>\<open>xs.pop()\<close>: the last element (\<^verbatim>\<open>undefined\<close> on an empty array) and the array left.\<close>

definition pop :: "'a list \<Rightarrow> 'a option \<times> 'a list" where
  "pop xs = (if xs = [] then (None, []) else (Some (last xs), butlast xs))"

text \<open>\<^verbatim>\<open>xs[i]\<close>: \<^verbatim>\<open>undefined\<close> out of range.\<close>

definition at :: "'a list \<Rightarrow> nat \<Rightarrow> 'a option" where
  "at xs i = (if i < length xs then Some (xs ! i) else None)"

text \<open>
  \<^verbatim>\<open>xs.sort(cmp)\<close>: a stable sort (ECMAScript 2019). An element \<open>x\<close> goes behind \<open>y\<close> only
  when \<open>cmp x y > 0\<close>; each element is inserted into the sorted rest of the array, which it
  preceded, so equal elements keep their order.
\<close>

fun insert_by :: "('a \<Rightarrow> 'a \<Rightarrow> int) \<Rightarrow> 'a \<Rightarrow> 'a list \<Rightarrow> 'a list" where
  "insert_by cmp x [] = [x]"
| "insert_by cmp x (y # ys) = (if cmp x y > 0 then y # insert_by cmp x ys else x # y # ys)"

definition array_sort :: "('a \<Rightarrow> 'a \<Rightarrow> int) \<Rightarrow> 'a list \<Rightarrow> 'a list" where
  "array_sort cmp xs = foldr (insert_by cmp) xs []"

section \<open>dataProcessing\<close>

subsection \<open>The priority sort\<close>

text \<open>The priority of a site: its position in the reversed list plus one.\<close>

definition priority :: "string list \<Rightarrow> monitor \<Rightarrow> int" where
  "priority siteSortArr v = indexOf siteSortArr (trim (friendly_name v)) + 1"

definition sortCompare :: "string list \<Rightarrow> monitor \<Rightarrow> monitor \<Rightarrow> int" where
  "sortCompare siteSortArr v1 v2 =
     (let i1 = priority siteSortArr v1;
          i2 = priority siteSortArr v2
      in (if i2 = - 1 then 0 else i2) - (if i1 = - 1 then 0 else i1))"

definition siteSort :: "string \<Rightarrow> string list" where
  "siteSort s = rev (map trim (split_on CHR '','' s))"

text \<open>
  The \<^verbatim>\<open>try\<close> block: without \<^verbatim>\<open>VITE_SITE_SORT\<close> the call of \<^verbatim>\<open>split\<close> throws, without
  \<^verbatim>\<open>data\<close> the call of \<^verbatim>\<open>sort\<close> does; both are caught and \<^verbatim>\<open>data\<close> stays as it was.
\<close>

definition sortData :: "('d, 'u) env \<Rightarrow> monitor list option \<Rightarrow> monitor list option" where
  "sortData e data =
     (case VITE_SITE_SORT e of
        None \<Rightarrow> data
      | Some s \<Rightarrow>
          (case data of
             None \<Rightarrow> None
           | Some ms \<Rightarrow> Some (array_sort (sortCompare (siteSort s)) ms)))"

subsection \<open>One monitor\<close>

text \<open>
  \<^verbatim>\<open>dates.forEach\<close>: \<^verbatim>\<open>map\<close> is used as a dictionary from day keys to indices, a later
  date with the same key replacing the earlier one; \<^verbatim>\<open>daily[index]\<close> is written at
  \<open>index = length daily\<close>, which appends. The keys that dayjs formats are digit strings
  (or \<^verbatim>\<open>Invalid Date\<close>), never the name of a built-in property of an array.
\<close>

definition emptyCounts :: counts where
  "emptyCounts = \<lparr>times_n = Fin 0, duration_n = Fin 0\<rparr>"

definition forEachDate ::
  "('d, 'u) env \<Rightarrow> string list \<Rightarrow> 'd list \<Rightarrow> (string \<rightharpoonup> nat) \<times> ('d, 'u) bucket list" where
  "forEachDate e ranges dates =
     fold (\<lambda>(index, d) (mp, dly).
            (mp(dayjs_format e d \<mapsto> index),
             dly @ [\<lparr>date = d, uptime = formatNumber e (at ranges index), down = emptyCounts\<rparr>]))
          (enumerate 0 dates) (Map.empty, [])"

text \<open>
  \<^verbatim>\<open>calculateTotal\<close>, with the array \<^verbatim>\<open>daily\<close> it updates in place as part of the
  accumulator. \<^verbatim>\<open>daily[map[date]]\<close> is \<^verbatim>\<open>undefined\<close> when the key is not in \<^verbatim>\<open>map\<close>, and
  reading \<^verbatim>\<open>.down\<close> of it throws a TypeError.
\<close>

definition addDown :: "jsnum \<Rightarrow> ('d, 'u) bucket \<Rightarrow> ('d, 'u) bucket" where
  "addDown dur b =
     b\<lparr>down := \<lparr>times_n = js_add (times_n (down b)) (Fin 1),
                 duration_n = js_add (duration_n (down b)) dur\<rparr>\<rparr>"

text \<open>\<^verbatim>\<open>dayjs.unix(log.datetime).format("YYYYMMDD")\<close>: the calendar-day key of a log.\<close>

definition dayKey :: "('d, 'u) env \<Rightarrow> log \<Rightarrow> string" where
  "dayKey e lg = dayjs_format e (dayjs_unix e (datetime lg))"

definition calculateTotal ::
  "('d, 'u) env \<Rightarrow> (string \<rightharpoonup> nat) \<Rightarrow> counts \<times> ('d, 'u) bucket list \<Rightarrow> log
     \<Rightarrow> js_error + counts \<times> ('d, 'u) bucket list" where
  "calculateTotal e mp acc lg =
     (case acc of (tot, dly) \<Rightarrow>
        if type_l lg = 1 then
          (let dt = dayKey e lg;
               dur = to_double (duration lg);
               tot' = \<lparr>times_n = js_add (times_n tot) (Fin 1),
                       duration_n = js_add (duration_n tot) dur\<rparr>
           in case mp dt of
                None \<Rightarrow> Inl TypeError
              | Some i \<Rightarrow>
                  if i < length dly then Inr (tot', dly[i := addDown dur (dly ! i)])
                  else Inl TypeError)
        else Inr (tot, dly))"

text \<open>\<^verbatim>\<open>logs.reduce(f, init)\<close> with a callback that may throw.\<close>

fun reduce :: "('a \<Rightarrow> 'b \<Rightarrow> js_error + 'a) \<Rightarrow> 'a \<Rightarrow> 'b list \<Rightarrow> js_error + 'a" where
  "reduce f acc [] = Inr acc"
| "reduce f acc (x # xs) = (case f acc x of Inl err \<Rightarrow> Inl err | Inr acc' \<Rightarrow> reduce f acc' xs)"

definition statusOf :: "int \<Rightarrow> string" where
  "statusOf code =
     (let st = ''unknown'';
          st = (if code = 2 then ''ok'' else st);
          st = (if code = 9 then ''down'' else st)
      in st)"

definition processMonitor ::
  "('d, 'u) env \<Rightarrow> 'd list \<Rightarrow> monitor \<Rightarrow> js_error + ('d, 'u) site" where
  "processMonitor e dates m =
     (case pop (split_on CHR ''-'' (custom_uptime_ranges m)) of (lst, ranges) \<Rightarrow>
        (case forEachDate e ranges dates of (mp, daily0) \<Rightarrow>
           (case reduce (calculateTotal e mp) (emptyCounts, daily0) (logs m) of
              Inl err \<Rightarrow> Inl err
            | Inr (tot, dly) \<Rightarrow>
                Inr \<lparr>id_s = id_m m, name_s = friendly_name m, url_s = url_m m,
                     average = formatNumber e lst, daily = dly, total = tot,
                     status_s = statusOf (status_m m)\<rparr>)))"


subsection \<open>All monitors\<close>

text \<open>\<^verbatim>\<open>xs.map(f)\<close> with a callback that may throw: the first exception ends the call.\<close>

fun array_map :: "('a \<Rightarrow> js_error + 'b) \<Rightarrow> 'a list \<Rightarrow> js_error + 'b list" where
  "array_map f [] = Inr []"
| "array_map f (x # xs) =
     (case f x of
        Inl err \<Rightarrow> Inl err
      | Inr y \<Rightarrow> (case array_map f xs of Inl err \<Rightarrow> Inl err | Inr ys \<Rightarrow> Inr (y # ys)))"

text \<open>\<^verbatim>\<open>data?.map(...)\<close> is \<^verbatim>\<open>undefined\<close> when \<^verbatim>\<open>data\<close> is.\<close>

definition dataProcessing ::
  "('d, 'u) env \<Rightarrow> monitor list option \<Rightarrow> 'd list \<Rightarrow> js_error + ('d, 'u) site list option" where
  "dataProcessing e data dates =
     (case sortData e data of
        None \<Rightarrow> Inr None
      | Some ms \<Rightarrow>
          (case array_map (processMonitor e dates) ms of
             Inl err \<Rightarrow> Inl err
           | Inr sites \<Rightarrow> Inr (Some sites)))"

section \<open>changeSite\<close>

text \<open>
  Modelled from the spec: the external status object (a store of this repository that is
  not in the sources), with its two setters \<^verbatim>\<open>changeSiteState\<close> and
  \<^verbatim>\<open>changeSiteOverview\<close>, each of which replaces one field.
\<close>

record overview =
  count_n :: nat
  okCount :: nat
  downCount :: nat
  unknownCount :: nat

record status =
  siteState :: string
  siteOverview :: "overview option"

definition changeSiteState :: "string \<Rightarrow> status \<Rightarrow> status" where
  "changeSiteState s st = st\<lparr>siteState := s\<rparr>"

definition changeSiteOverview :: "overview \<Rightarrow> status \<Rightarrow> status" where
  "changeSiteOverview v st = st\<lparr>siteOverview := Some v\<rparr>"

text \<open>
  The document is the \<^verbatim>\<open>href\<close> of the element that
  \<^verbatim>\<open>querySelector('link[rel="shortcut icon"]')\<close> finds, \<open>None\<close> when there is no such
  element: writing \<^verbatim>\<open>.href\<close> of \<^verbatim>\<open>null\<close> throws. \<^verbatim>\<open>data.every\<close> throws when \<^verbatim>\<open>data\<close> is
  \<^verbatim>\<open>undefined\<close>. Both exceptions end in the \<^verbatim>\<open>catch\<close> block.
\<close>

definition changeSite ::
  "('d, 'u) site list option \<Rightarrow> string option \<times> status \<Rightarrow> string option \<times> status" where
  "changeSite data ds =
     (case ds of (faviconLink, st) \<Rightarrow>
        (case data of
           None \<Rightarrow> (faviconLink, changeSiteState ''error'' st)
         | Some sites \<Rightarrow>
             (let isAllStatusOk = list_all (\<lambda>item. status_s item = ''ok'') sites;
                  isAnyStatusOk = list_ex (\<lambda>item. status_s item = ''ok'') sites;
                  okCnt = length (filter (\<lambda>item. status_s item = ''ok'') sites);
                  downCnt = length (filter (\<lambda>item. status_s item = ''down'') sites);
                  unknownCnt = length (filter (\<lambda>item. status_s item = ''unknown'') sites)
              in case faviconLink of
                   None \<Rightarrow> (None, changeSiteState ''error'' st)
                 | Some href \<Rightarrow>
                     (let icon = (if isAllStatusOk then ''./images/favicon.ico''
                                  else ''./images/favicon-down.ico'');
                          st1 = (if isAllStatusOk then changeSiteState ''normal'' st
                                 else if isAnyStatusOk then changeSiteState ''error'' st
                                 else changeSiteState ''allError'' st)
                      in (Some icon,
                          changeSiteOverview
                            \<lparr>count_n = length sites, okCount = okCnt, downCount = downCnt,
                             unknownCount = unknownCnt\<rparr> st1)))))"

section \<open>URLSearchParams\<close>

text \<open>
  For the form parameters and for the proxy a string is held as the bytes of its UTF-8
  encoding. Text arrives as bytes and is decoded as UTF-8: with this representation,
  decoding copies every well-formed sequence of bytes and puts U+FFFD, the bytes
  \<^verbatim>\<open>EF BF BD\<close>, for every error. \<open>continuation\<close> and \<open>sequence\<close> follow the UTF-8 decoder
  of the Encoding standard: a lead byte fixes the number of continuation bytes needed and
  the bounds of the first of them (\<^verbatim>\<open>E0\<close>, \<^verbatim>\<open>ED\<close>, \<^verbatim>\<open>F0\<close> and \<^verbatim>\<open>F4\<close> narrow them, which
  rules out overlong forms, surrogates and code points beyond U+10FFFF); a byte out of
  bounds ends the sequence with an error and is read again as a lead byte; the end of the
  input inside a sequence is one error. They give whether the sequence is well formed and
  the number of continuation bytes consumed.
\<close>

definition replacement :: string where
  "replacement = [CHR 0xEF, CHR 0xBF, CHR 0xBD]"

fun continuation :: "nat \<Rightarrow> nat \<Rightarrow> nat \<Rightarrow> string \<Rightarrow> bool \<times> nat" where
  "continuation k lo hi [] = (k = 0, 0)"
| "continuation k lo hi (c # cs) =
     (if k = 0 then (True, 0)
      else if lo \<le> of_char c \<and> of_char c \<le> hi
      then (case continuation (k - 1) 128 191 cs of (ok, n) \<Rightarrow> (ok, Suc n))
      else (False, 0))"

definition sequence :: "char \<Rightarrow> string \<Rightarrow> bool \<times> nat" where
  "sequence b bs =
     (let n = of_char b :: nat
      in if n < 128 then (True, 0)
         else if 194 \<le> n \<and> n \<le> 223 then continuation 1 128 191 bs
         else if 224 \<le> n \<and> n \<le> 239 then
           continuation 2 (if n = 224 then 160 else 128) (if n = 237 then 159 else 191) bs
         else if 240 \<le> n \<and> n \<le> 244 then
           continuation 3 (if n = 240 then 144 else 128) (if n = 244 then 143 else 191) bs
         else (False, 0))"

text \<open>The text that bytes decode to (UTF-8 decode without BOM).\<close>

fun utf8_text :: "string \<Rightarrow> string" where
  "utf8_text [] = []"
| "utf8_text (b # bs) =
     (case sequence b bs of (ok, n) \<Rightarrow>
        (if ok then b # take n bs else replacement) @ utf8_text (drop n bs))"

text \<open>UTF-8 decode, as \<^verbatim>\<open>text()\<close> of a body does it, drops a byte order mark first.\<close>

definition strip_bom :: "string \<Rightarrow> string" where
  "strip_bom bs = (if take 3 bs = [CHR 0xEF, CHR 0xBB, CHR 0xBF] then drop 3 bs else bs)"

text \<open>
  The list of name-value pairs of a \<^verbatim>\<open>URLSearchParams\<close> object, with the
  \<^verbatim>\<open>application/x-www-form-urlencoded\<close> parser and serializer of the URL standard. The
  parser splits at \<^verbatim>\<open>&\<close> and at the first \<^verbatim>\<open>=\<close>, turns \<^verbatim>\<open>+\<close> into a space, decodes the
  percent escapes to bytes and decodes these bytes as UTF-8; the serializer writes the
  bytes of the UTF-8 encoding, escaping all but \<^verbatim>\<open>*-._\<close>, digits and letters, with \<^verbatim>\<open>+\<close>
  for a space.
\<close>

definition is_hex :: "char \<Rightarrow> bool" where
  "is_hex c = (let n = of_char c :: nat
               in (48 \<le> n \<and> n \<le> 57) \<or> (65 \<le> n \<and> n \<le> 70) \<or> (97 \<le> n \<and> n \<le> 102))"

definition hex_val :: "char \<Rightarrow> nat" where
  "hex_val c = (let n = of_char c :: nat
                in if n \<le> 57 then n - 48 else if n \<le> 70 then n - 55 else n - 87)"

fun percent_decode :: "string \<Rightarrow> string" where
  "percent_decode [] = []"
| "percent_decode (c # cs) =
     (if c = CHR ''%'' then
        (case cs of
           h1 # h2 # rest \<Rightarrow>
             if is_hex h1 \<and> is_hex h2
             then char_of (16 * hex_val h1 + hex_val h2) # percent_decode rest
             else c # percent_decode cs
         | _ \<Rightarrow> c # percent_decode cs)
      else c # percent_decode cs)"

definition plus_to_space :: "string \<Rightarrow> string" where
  "plus_to_space s = map (\<lambda>c. if c = CHR ''+'' then CHR '' '' else c) s"

definition parse_pair :: "string \<Rightarrow> string \<times> string" where
  "parse_pair sq =
     (let name = takeWhile (\<lambda>c. c \<noteq> CHR ''='') sq;
          val = drop 1 (dropWhile (\<lambda>c. c \<noteq> CHR ''='') sq)
      in (utf8_text (percent_decode (plus_to_space name)),
          utf8_text (percent_decode (plus_to_space val))))"

text \<open>\<^verbatim>\<open>new URLSearchParams(body)\<close>: a leading \<^verbatim>\<open>?\<close> is dropped, empty sequences are skipped.\<close>

definition usp_parse :: "string \<Rightarrow> (string \<times> string) list" where
  "usp_parse body =
     (let input = (case body of c # cs \<Rightarrow> if c = CHR ''?'' then cs else body | [] \<Rightarrow> body)
      in map parse_pair (filter (\<lambda>sq. sq \<noteq> []) (split_on CHR ''&'' input)))"

text \<open>
  \<^verbatim>\<open>params.set(name, value)\<close>: the first pair of that name gets the value and the other
  pairs of that name are removed; without such a pair, the pair is appended.
\<close>

fun set_first :: "(string \<times> string) list \<Rightarrow> string \<Rightarrow> string \<Rightarrow> (string \<times> string) list" where
  "set_first [] n v = []"
| "set_first (p # ps) n v =
     (if fst p = n then (n, v) # filter (\<lambda>q. fst q \<noteq> n) ps else p # set_first ps n v)"

definition usp_set :: "(string \<times> string) list \<Rightarrow> string \<Rightarrow> string \<Rightarrow> (string \<times> string) list" where
  "usp_set ps n v = (if n \<in> fst ` set ps then set_first ps n v else ps @ [(n, v)])"

definition usp_append :: "(string \<times> string) list \<Rightarrow> string \<Rightarrow> string \<Rightarrow> (string \<times> string) list" where
  "usp_append ps n v = ps @ [(n, v)]"

definition unreserved :: "char \<Rightarrow> bool" where
  "unreserved c = (let n = of_char c :: nat
                   in n = 42 \<or> n = 45 \<or> n = 46 \<or> (48 \<le> n \<and> n \<le> 57) \<or> (65 \<le> n \<and> n \<le> 90)
                      \<or> n = 95 \<or> (97 \<le> n \<and> n \<le> 122))"

definition hex_digit :: "nat \<Rightarrow> char" where
  "hex_digit n = ''0123456789ABCDEF'' ! n"

definition encode_byte :: "char \<Rightarrow> string" where
  "encode_byte c =
     (if c = CHR '' '' then ''+''
      else if unreserved c then [c]
      else [CHR ''%'', hex_digit ((of_char c :: nat) div 16), hex_digit ((of_char c :: nat) mod 16)])"

definition urlencode :: "string \<Rightarrow> string" where
  "urlencode s = concat (map encode_byte s)"

text \<open>\<^verbatim>\<open>params.toString()\<close>.\<close>

definition usp_toString :: "(string \<times> string) list \<Rightarrow> string" where
  "usp_toString ps = join ''&'' (map (\<lambda>(n, v). urlencode n @ ''='' @ urlencode v) ps)"

text \<open>The decimal text of an integer number, as string conversion gives it.\<close>

fun show_nat :: "nat \<Rightarrow> string" where
  "show_nat n =
     (if n < 10 then [''0123456789'' ! n]
      else show_nat (n div 10) @ [''0123456789'' ! (n mod 10)])"

definition show_int :: "int \<Rightarrow> string" where
  "show_int i = (if i < 0 then CHR ''-'' # show_nat (nat (- i)) else show_nat (nat i))"

section \<open>getMonitorsData\<close>

text \<open>
  The body of the JSON answer (\<^verbatim>\<open>response.data\<close>): an object with \<^verbatim>\<open>stat\<close>, possibly
  \<^verbatim>\<open>error.message\<close> and possibly \<^verbatim>\<open>monitors\<close>; \<open>None\<close> for \<^verbatim>\<open>null\<close>.
\<close>

record api_data =
  stat :: string
  error_message :: "string option"
  monitors :: "monitor list option"

text \<open>
  What one call of \<^verbatim>\<open>getSiteData\<close> reads from outside: the local midnight of today as a
  dayjs date, the clock \<^verbatim>\<open>new Date().getTime()\<close> at the cache check and at the store, the
  answer of \<^verbatim>\<open>axios.post\<close> to a URL and a body (its \<^verbatim>\<open>response.data\<close>, or the rejection
  for a transport failure or a status outside 2xx), and the favicon link of the document.
  The delay of the timer on the cache path is not modelled.
\<close>

record 'd world =
  today :: 'd
  now_check :: int
  now_store :: int
  axios_post :: "string \<Rightarrow> string \<Rightarrow> js_error + api_data option"
  faviconLink :: "string option"

record postdata =
  api_key :: string
  format :: string
  logs_flag :: int
  log_types :: string
  logs_start_date :: int
  logs_end_date :: int
  custom_ranges :: string

text \<open>\<^verbatim>\<open>Object.keys(postdata).forEach(key => params.append(key, postdata[key]))\<close>.\<close>

definition form_params :: "postdata \<Rightarrow> (string \<times> string) list" where
  "form_params pd =
     fold (\<lambda>(k, v) ps. usp_append ps k v)
       [(''api_key'', api_key pd), (''format'', format pd), (''logs'', show_int (logs_flag pd)),
        (''log_types'', log_types pd), (''logs_start_date'', show_int (logs_start_date pd)),
        (''logs_end_date'', show_int (logs_end_date pd)),
        (''custom_uptime_ranges'', custom_ranges pd)] []"

definition apiUrl :: "('d, 'u) env \<Rightarrow> string" where
  "apiUrl e =
     (if DEV e then ''/uptimerobot/v2/getMonitors''
      else (case VITE_GLOBAL_API e of
              None \<Rightarrow> ''https://api.uptimerobot.com/v2/getMonitors''
            | Some u \<Rightarrow> if u = [] then ''https://api.uptimerobot.com/v2/getMonitors'' else u))"

definition apiErrorMessage :: "api_data \<Rightarrow> string" where
  "apiErrorMessage d =
     ''API Error: '' @
       (case error_message d of
          None \<Rightarrow> ''Unknown error''
        | Some msg \<Rightarrow> if msg = [] then ''Unknown error'' else msg)"

text \<open>
  The result, the status object afterwards and the requests sent. Both the rejection of
  \<^verbatim>\<open>axios.post\<close> and the error thrown for \<^verbatim>\<open>stat === 'fail'\<close> pass through the \<^verbatim>\<open>catch\<close>
  block, which sets the state \<^verbatim>\<open>wrong\<close> and throws again.
\<close>

definition getMonitorsData ::
  "('d, 'u) env \<Rightarrow> 'd world \<Rightarrow> postdata \<Rightarrow> status
     \<Rightarrow> (js_error + api_data option) \<times> status \<times> (string \<times> string) list" where
  "getMonitorsData e w pd st =
     (let url = apiUrl e;
          body = usp_toString (form_params pd)
      in case axios_post w url body of
           Inl err \<Rightarrow> (Inl err, changeSiteState ''wrong'' st, [(url, body)])
         | Inr None \<Rightarrow> (Inr None, st, [(url, body)])
         | Inr (Some d) \<Rightarrow>
             if stat d = ''fail''
             then (Inl (ApiError (apiErrorMessage d)), changeSiteState ''wrong'' st, [(url, body)])
             else (Inr (Some d), st, [(url, body)]))"

section \<open>getSiteData\<close>

text \<open>
  Modelled from the spec: the cache store (a store of this repository that is not in the
  sources), a single slot \<^verbatim>\<open>siteData\<close> that is \<^verbatim>\<open>null\<close> or holds the last raw monitor list
  with its timestamp, and that \<^verbatim>\<open>changeSiteData\<close> replaces. The slot holds the array it
  was given, not a copy: the sort of \<^verbatim>\<open>dataProcessing\<close>, which works in place, reorders
  the array in the slot too.
\<close>

record cache_entry =
  data_c :: "monitor list"
  timestamp :: int

definition changeSiteData :: "cache_entry \<Rightarrow> cache_entry option \<Rightarrow> cache_entry option" where
  "changeSiteData v c = Some v"

text \<open>
  How the promise of \<^verbatim>\<open>getSiteData\<close> ends. On the cache path the work is done in a timer
  callback: an exception there is not caught by anything, and the promise stays pending.
\<close>

datatype 'a outcome = Resolved 'a | Rejected js_error | Pending

record ('d, 'u) run =
  outcome :: "('d, 'u) site list option outcome"
  cache_after :: "cache_entry option"
  cache_writes :: "cache_entry list"
  requests :: "(string \<times> string) list"
  status_after :: status
  favicon_after :: "string option"

text \<open>The array \<^verbatim>\<open>data\<close> after \<^verbatim>\<open>dataProcessing(data, dates)\<close> has sorted it in place.\<close>

definition sortedInPlace :: "('d, 'u) env \<Rightarrow> monitor list \<Rightarrow> monitor list" where
  "sortedInPlace e ms = (case sortData e (Some ms) of None \<Rightarrow> ms | Some ms' \<Rightarrow> ms')"

definition cacheDuration :: int where
  "cacheDuration = 60"

definition getDates :: "('d, 'u) env \<Rightarrow> 'd world \<Rightarrow> int \<Rightarrow> 'd list" where
  "getDates e w days = map (\<lambda>d. dayjs_subtract e (today w) d) [0..<nat days]"

definition rangeOf :: "('d, 'u) env \<Rightarrow> 'd \<Rightarrow> string" where
  "rangeOf e d =
     show_int (dayjs_to_unix e d) @ ''_'' @ show_int (dayjs_to_unix e (dayjs_add e d 1))"

definition makePostdata :: "('d, 'u) env \<Rightarrow> string \<Rightarrow> 'd list \<Rightarrow> postdata" where
  "makePostdata e apikey dates =
     (let ranges = map (rangeOf e) dates;
          start = dayjs_to_unix e (last dates);
          end_d = dayjs_to_unix e (dayjs_add e (hd dates) 1);
          ranges = ranges @ [show_int start @ ''_'' @ show_int end_d]
      in \<lparr>api_key = apikey, format = ''json'', logs_flag = 1, log_types = ''1-2'',
          logs_start_date = start, logs_end_date = end_d,
          custom_ranges = join ''-'' ranges\<rparr>)"

text \<open>The form-encoded body that \<^verbatim>\<open>getMonitorsData\<close> posts for these arguments.\<close>

definition requestBody :: "('d, 'u) env \<Rightarrow> 'd world \<Rightarrow> string \<Rightarrow> int \<Rightarrow> string" where
  "requestBody e w apikey days =
     usp_toString (form_params (makePostdata e apikey (getDates e w days)))"

text \<open>The cache path: the body of the timer callback.\<close>

definition fromCache ::
  "('d, 'u) env \<Rightarrow> 'd world \<Rightarrow> 'd list \<Rightarrow> cache_entry \<Rightarrow> status \<Rightarrow> ('d, 'u) run" where
  "fromCache e w dates entry st =
     (let kept = Some (entry\<lparr>data_c := sortedInPlace e (data_c entry)\<rparr>)
      in case dataProcessing e (Some (data_c entry)) dates of
           Inl err \<Rightarrow>
             \<lparr>outcome = Pending, cache_after = kept, cache_writes = [], requests = [],
              status_after = st, favicon_after = faviconLink w\<rparr>
         | Inr processedData \<Rightarrow>
             (case changeSite processedData (faviconLink w, st) of (fav, st') \<Rightarrow>
                \<lparr>outcome = Resolved processedData, cache_after = kept, cache_writes = [],
                 requests = [], status_after = st', favicon_after = fav\<rparr>))"

text \<open>
  The path through the network, from \<^verbatim>\<open>postdata\<close> on. \<open>cache_writes\<close> holds the argument
  of \<^verbatim>\<open>cache.changeSiteData\<close> as it is at the call; \<open>cache_after\<close> is the slot when
  \<^verbatim>\<open>getSiteData\<close> ends, its array sorted in place by \<^verbatim>\<open>dataProcessing\<close>. An array is
  truthy even when empty, so every monitor list is stored.
\<close>

definition fromNetwork ::
  "('d, 'u) env \<Rightarrow> 'd world \<Rightarrow> string \<Rightarrow> 'd list \<Rightarrow> cache_entry option \<Rightarrow> status
     \<Rightarrow> ('d, 'u) run" where
  "fromNetwork e w apikey dates cache st =
     (case getMonitorsData e w (makePostdata e apikey dates) st of (res, st1, reqs) \<Rightarrow>
        (case res of
           Inl err \<Rightarrow>
             \<lparr>outcome = Rejected err, cache_after = cache, cache_writes = [], requests = reqs,
              status_after = changeSiteState ''wrong'' st1, favicon_after = faviconLink w\<rparr>
         | Inr None \<Rightarrow>
             \<lparr>outcome = Rejected TypeError, cache_after = cache, cache_writes = [],
              requests = reqs, status_after = changeSiteState ''wrong'' st1,
              favicon_after = faviconLink w\<rparr>
         | Inr (Some response) \<Rightarrow>
             (let writes = (case monitors response of
                              None \<Rightarrow> []
                            | Some ms \<Rightarrow> [\<lparr>data_c = ms, timestamp = now_store w\<rparr>]);
                  cache' = (case monitors response of
                              None \<Rightarrow> cache
                            | Some ms \<Rightarrow>
                                changeSiteData
                                  \<lparr>data_c = sortedInPlace e ms, timestamp = now_store w\<rparr> cache)
              in case dataProcessing e (monitors response) dates of
                   Inl err \<Rightarrow>
                     \<lparr>outcome = Rejected err, cache_after = cache', cache_writes = writes,
                      requests = reqs, status_after = changeSiteState ''wrong'' st1,
                      favicon_after = faviconLink w\<rparr>
                 | Inr processedData \<Rightarrow>
                     (case changeSite processedData (faviconLink w, st1) of (fav, st') \<Rightarrow>
                        \<lparr>outcome = Resolved processedData, cache_after = cache',
                         cache_writes = writes, requests = reqs, status_after = st',
                         favicon_after = fav\<rparr>))))"

text \<open>
  \<^verbatim>\<open>getSiteData\<close>. With no date (\<^verbatim>\<open>days\<close> below one), \<^verbatim>\<open>dates[dates.length - 1]\<close> is
  \<^verbatim>\<open>undefined\<close> and the call of \<^verbatim>\<open>.unix()\<close> throws before the cache is looked at.
\<close>

definition getSiteData ::
  "('d, 'u) env \<Rightarrow> 'd world \<Rightarrow> string \<Rightarrow> int \<Rightarrow> cache_entry option \<Rightarrow> status \<Rightarrow> ('d, 'u) run" where
  "getSiteData e w apikey days cache status0 =
     (let st = changeSiteState ''loading'' status0;
          dates = getDates e w days
      in if dates = [] then
           \<lparr>outcome = Rejected TypeError, cache_after = cache, cache_writes = [], requests = [],
            status_after = changeSiteState ''wrong'' st, favicon_after = faviconLink w\<rparr>
         else
           (case cache of
              None \<Rightarrow> fromNetwork e w apikey dates cache st
            | Some entry \<Rightarrow>
                if now_check w - timestamp entry < cacheDuration * 1000
                then fromCache e w dates entry st
                else fromNetwork e w apikey dates cache st))"

section \<open>The proxy endpoint\<close>

text \<open>
  A request is its method and the bytes of its body (\<open>None\<close> when \<^verbatim>\<open>req.text()\<close> throws);
  the upstream answer to a forwarded body, with the text of its body, is a parameter
  (\<open>Inl\<close> when \<^verbatim>\<open>fetch\<close> or \<^verbatim>\<open>r.text()\<close> rejects). The server's key is the string of
  \<^verbatim>\<open>process.env\<close>, held as its UTF-8 encoding like the other strings here, so that
  \<open>utf8_text k = k\<close> for a key \<open>k\<close>.
\<close>

record request =
  method_r :: string
  body_bytes :: "string option"

record upstream =
  status_u :: int
  text_u :: string
  content_type :: "string option"

record response =
  status_r :: int
  body_r :: string
  headers_r :: "(string \<times> string) list"

record proxied =
  answer :: "js_error + response"
  forwarded :: "string list"

text \<open>\<^verbatim>\<open>try { body = await req.text() } catch { body = "" }\<close>.\<close>

definition requestText :: "request \<Rightarrow> string" where
  "requestText req =
     (case body_bytes req of None \<Rightarrow> [] | Some bs \<Rightarrow> utf8_text (strip_bom bs))"

text \<open>
  \<^verbatim>\<open>new Response(body, {status, headers})\<close> with a string as body: a status outside 200 to
  599 is a RangeError, a null body status (101, 103, 204, 205, 304) with a body is a
  TypeError, and a response without a \<^verbatim>\<open>Content-Type\<close> header gets the one of a string
  body. The handler writes the names of its headers as \<^verbatim>\<open>Content-Type\<close> and
  \<^verbatim>\<open>Cache-Control\<close>, and the names are kept as written.
\<close>

definition newResponse :: "string \<Rightarrow> int \<Rightarrow> (string \<times> string) list \<Rightarrow> js_error + response" where
  "newResponse body status headers =
     (if status < 200 \<or> 599 < status then Inl RangeError
      else if status \<in> {101, 103, 204, 205, 304} then Inl TypeError
      else Inr \<lparr>status_r = status, body_r = body,
                headers_r =
                  (if ''Content-Type'' \<in> fst ` set headers then headers
                   else headers @ [(''Content-Type'', ''text/plain;charset=UTF-8'')])\<rparr>)"

text \<open>
  A parameter list with the values of the fields of one name blanked: two bodies differ
  only in the values of their \<^verbatim>\<open>api_key\<close> fields when their parameter lists, blanked at
  \<^verbatim>\<open>api_key\<close>, are the same.
\<close>

definition blank_key :: "string \<Rightarrow> (string \<times> string) list \<Rightarrow> (string \<times> string) list" where
  "blank_key k ps = map (\<lambda>(n, v). (n, if n = k then [] else v)) ps"

definition handler ::
  "string option \<Rightarrow> (string \<Rightarrow> js_error + upstream) \<Rightarrow> request \<Rightarrow> proxied" where
  "handler UPTIMEROBOT_API_KEY fetch req =
     (if method_r req \<noteq> ''POST'' then
        \<lparr>answer = newResponse ''Method Not Allowed'' 405 [], forwarded = []\<rparr>
      else
        (case UPTIMEROBOT_API_KEY of
           None \<Rightarrow>
             \<lparr>answer = newResponse ''Missing UPTIMEROBOT_API_KEY'' 500 [], forwarded = []\<rparr>
         | Some apiKey \<Rightarrow>
             if apiKey = [] then
               \<lparr>answer = newResponse ''Missing UPTIMEROBOT_API_KEY'' 500 [], forwarded = []\<rparr>
             else
               (let body = requestText req;
                    params = usp_set (usp_parse body) ''api_key'' apiKey;
                    sent = usp_toString params
                in case fetch sent of
                     Inl err \<Rightarrow> \<lparr>answer = Inl err, forwarded = [sent]\<rparr>
                   | Inr r \<Rightarrow>
                       \<lparr>answer =
                          newResponse (text_u r) (status_u r)
                            [(''Content-Type'',
                              (case content_type r of
                                 None \<Rightarrow> ''application/json''
                               | Some ct \<Rightarrow> if ct = [] then ''application/json'' else ct)),
                             (''Cache-Control'', ''no-store'')],
                        forwarded = [sent]\<rparr>)))"

section \<open>A concrete environment\<close>

text \<open>
  For evaluating the functions on concrete inputs: dayjs in a browser whose time zone is
  UTC, a date being its unix time in seconds. \<open>utc_format\<close> is the civil date of a unix
  time, written as \<^verbatim>\<open>YYYYMMDD\<close>. \<^verbatim>\<open>formatNumber\<close> is instantiated by the identity.
\<close>

definition pad :: "nat \<Rightarrow> string \<Rightarrow> string" where
  "pad n s = replicate (n - length s) CHR ''0'' @ s"

definition utc_format :: "int \<Rightarrow> string" where
  "utc_format t =
     (let z = t div 86400 + 719468;
          era = z div 146097;
          doe = z - era * 146097;
          yoe = (doe - doe div 1460 + doe div 36524 - doe div 146096) div 365;
          doy = doe - (365 * yoe + yoe div 4 - yoe div 100);
          mp = (5 * doy + 2) div 153;
          d = doy - (153 * mp + 2) div 5 + 1;
          m = (if mp < 10 then mp + 3 else mp - 9);
          y = yoe + era * 400 + (if m \<le> 2 then 1 else 0)
      in pad 4 (show_int y) @ pad 2 (show_int m) @ pad 2 (show_int d))"

definition utc_env :: "string option \<Rightarrow> (int, string option) env" where
  "utc_env cfg =
     \<lparr>DEV = False, VITE_GLOBAL_API = None, VITE_SITE_SORT = cfg,
      formatNumber = (\<lambda>x. x),
      dayjs_unix = (\<lambda>t. t), dayjs_format = utc_format,
      dayjs_subtract = (\<lambda>t n. t - 86400 * int n), dayjs_add = (\<lambda>t n. t + 86400 * int n),
      dayjs_to_unix = (\<lambda>t. t)\<rparr>"

text \<open>The midnights of 2 January 2024 and of 1 January 2024, newest first.\<close>

definition two_days :: "int list" where
  "two_days = [1704153600, 1704067200]"

text \<open>The monitor of the example of the specification, without logs.\<close>

definition mon_blog :: monitor where
  "mon_blog =
     \<lparr>id_m = 1, friendly_name = ''blog'', url_m = ''https://blog.example'', status_m = 2,
      custom_uptime_ranges = ''95.5-100.0-97.0'', logs = []\<rparr>"

text \<open>
  A monitor that is down, with a down log on 2 January, an up log on 2 January and a down
  log on 1 January.
\<close>

definition log_jan2 :: log where
  "log_jan2 = \<lparr>type_l = 1, datetime = 1704153700, duration = 30\<rparr>"

definition log_up :: log where
  "log_up = \<lparr>type_l = 2, datetime = 1704153730, duration = 500\<rparr>"

definition log_jan1 :: log where
  "log_jan1 = \<lparr>type_l = 1, datetime = 1704070000, duration = 12\<rparr>"

definition mon_api :: monitor where
  "mon_api =
     \<lparr>id_m = 2, friendly_name = '' api '', url_m = ''https://api.example'', status_m = 9,
      custom_uptime_ranges = ''99.1-98.0-98.5'', logs = [log_jan2, log_up, log_jan1]\<rparr>"

text \<open>A paused monitor (status code 0).\<close>

definition mon_shop :: monitor where
  "mon_shop =
     \<lparr>id_m = 3, friendly_name = ''shop'', url_m = ''https://shop.example'', status_m = 0,
      custom_uptime_ranges = ''0.0-0.0-0.0'', logs = []\<rparr>"

text \<open>
  A monitor with a down log of \<open>2 ^ 53\<close> seconds on 2 January and two down logs of one second
  on 1 January.
\<close>

definition mon_big :: monitor where
  "mon_big =
     \<lparr>id_m = 4, friendly_name = ''big'', url_m = ''https://big.example'', status_m = 9,
      custom_uptime_ranges = ''0.0-0.0-0.0'',
      logs = [\<lparr>type_l = 1, datetime = 1704153700, duration = 9007199254740992\<rparr>,
              \<lparr>type_l = 1, datetime = 1704070000, duration = 1\<rparr>,
              \<lparr>type_l = 1, datetime = 1704070000, duration = 1\<rparr>]\<rparr>"

definition site_with :: "string \<Rightarrow> (int, string option) site" where
  "site_with st =
     \<lparr>id_s = 0, name_s = ''site'', url_s = ''https://site.example'', average = None,
      daily = [], total = emptyCounts, status_s = st\<rparr>"

definition status0 :: status where
  "status0 = \<lparr>siteState = ''loading'', siteOverview = None\<rparr>"

text \<open>
  A call on 2 January 2024 at 10:06:40 UTC (in milliseconds), the store 150 ms later, with
  the answer of the network as a parameter; a cache entry that is 10 seconds old and one
  that is exactly 60 seconds old.
\<close>

definition world_with :: "(js_error + api_data option) \<Rightarrow> int world" where
  "world_with ans =
     \<lparr>today = 1704153600, now_check = 1704190000000, now_store = 1704190000150,
      axios_post = (\<lambda>url body. ans), faviconLink = Some ''./images/favicon.ico''\<rparr>"

definition answer_ok :: "js_error + api_data option" where
  "answer_ok = Inr (Some \<lparr>stat = ''ok'', error_message = None, monitors = Some [mon_shop, mon_blog]\<rparr>)"

definition answer_fail :: "js_error + api_data option" where
  "answer_fail =
     Inr (Some \<lparr>stat = ''fail'', error_message = Some ''api_key not found'', monitors = None\<rparr>)"

definition answer_down :: "js_error + api_data option" where
  "answer_down = Inl (TransportError ''Network Error'')"

definition fresh_entry :: cache_entry where
  "fresh_entry = \<lparr>data_c = [mon_blog], timestamp = 1704189990000\<rparr>"

definition stale_entry :: cache_entry where
  "stale_entry = \<lparr>data_c = [mon_blog], timestamp = 1704189940000\<rparr>"

text \<open>A fresh entry whose monitor has a down log on 1 January.\<close>

definition fresh_api_entry :: cache_entry where
  "fresh_api_entry = \<lparr>data_c = [mon_api], timestamp = 1704189990000\<rparr>"

text \<open>
  Requests to the proxy with a given body, an upstream that answers 200 and one that
  answers 304.
\<close>

definition post_request :: "string \<Rightarrow> request" where
  "post_request b = \<lparr>method_r = ''POST'', body_bytes = Some b\<rparr>"

definition upstream_ok :: "string \<Rightarrow> js_error + upstream" where
  "upstream_ok b =
     Inr \<lparr>status_u = 200, text_u = ''{stat:ok}'', content_type = Some ''application/json''\<rparr>"

definition upstream_304 :: "string \<Rightarrow> js_error + upstream" where
  "upstream_304 b = Inr \<lparr>status_u = 304, text_u = [], content_type = None\<rparr>"

section \<open>Lemmas on the built-ins\<close>

lemma split_on_ne: "split_on c s \<noteq> []"
  by (induction s) (auto split: list.splits)

lemma split_on_no_sep: "c \<notin> set v \<Longrightarrow> split_on c v = [v]"
  by (induction v) auto

lemma split_on_append: "c \<notin> set v \<Longrightarrow> split_on c (v @ c # s) = v # split_on c s"
  by (induction v) auto

lemma split_join:
  "vs \<noteq> [] \<Longrightarrow> \<forall>v\<in>set vs. c \<notin> set v \<Longrightarrow> split_on c (join [c] vs) = vs"
proof (induction vs)
  case Nil
  then show ?case by simp
next
  case (Cons x xs)
  show ?case
  proof (cases xs)
    case Nil
    with Cons.prems show ?thesis by (simp add: split_on_no_sep)
  next
    case (Cons y ys)
    with Cons.IH Cons.prems show ?thesis by (simp add: split_on_append)
  qed
qed

lemma pop_split_join:
  "vs \<noteq> [] \<Longrightarrow> \<forall>v\<in>set vs. c \<notin> set v \<Longrightarrow>
   pop (split_on c (join [c] vs)) = (Some (last vs), butlast vs)"
  by (simp add: split_join pop_def)

lemma mset_insert_by: "mset (insert_by cmp x ys) = add_mset x (mset ys)"
  by (induction ys) auto

lemma mset_array_sort: "mset (array_sort cmp xs) = mset xs"
  unfolding array_sort_def by (induction xs) (auto simp: mset_insert_by)

lemma set_array_sort: "set (array_sort cmp xs) = set xs"
  by (metis mset_array_sort set_mset_mset)

lemma set_insert_by: "set (insert_by cmp x ys) = insert x (set ys)"
  by (metis mset_insert_by set_mset_add_mset_insert set_mset_mset)

lemma sorted_insert_by:
  assumes "sorted_wrt (\<lambda>a b. p b \<le> (p a :: int)) ys"
      and "\<And>a b. cmp a b > 0 \<longleftrightarrow> p a < p b"
  shows "sorted_wrt (\<lambda>a b. p b \<le> p a) (insert_by cmp x ys)"
  using assms(1)
proof (induction ys)
  case Nil
  then show ?case by simp
next
  case (Cons y ys)
  show ?case
  proof (cases "cmp x y > 0")
    case True
    with Cons assms(2)[of x y] show ?thesis
      by (auto simp: set_insert_by)
  next
    case False
    with Cons assms(2)[of x y] show ?thesis by force
  qed
qed

lemma sorted_array_sort:
  assumes "\<And>a b. cmp a b > 0 \<longleftrightarrow> p a < (p b :: int)"
  shows "sorted_wrt (\<lambda>a b. p b \<le> p a) (array_sort cmp xs)"
  unfolding array_sort_def
  by (induction xs) (auto intro: sorted_insert_by assms[THEN iffD1] assms[THEN iffD2])

lemma filter_insert_by:
  assumes "\<And>a b. cmp a b > 0 \<longleftrightarrow> p a < (p b :: int)"
      and "sorted_wrt (\<lambda>a b. p b \<le> p a) ys"
  shows "filter (\<lambda>v. p v = k) (insert_by cmp x ys) = filter (\<lambda>v. p v = k) (x # ys)"
  using assms(2)
proof (induction ys)
  case Nil
  then show ?case by simp
next
  case (Cons y ys)
  show ?case
  proof (cases "cmp x y > 0")
    case True
    then have lt: "p x < p y" using assms(1) by simp
    from Cons have IH: "filter (\<lambda>v. p v = k) (insert_by cmp x ys) = filter (\<lambda>v. p v = k) (x # ys)"
      by simp
    from True IH lt show ?thesis by auto
  next
    case False
    then show ?thesis by simp
  qed
qed

lemma array_sort_stable:
  assumes "\<And>a b. cmp a b > 0 \<longleftrightarrow> p a < (p b :: int)"
  shows "filter (\<lambda>v. p v = k) (array_sort cmp xs) = filter (\<lambda>v. p v = k) xs"
proof (induction xs)
  case Nil
  then show ?case by (simp add: array_sort_def)
next
  case (Cons x xs)
  have s: "sorted_wrt (\<lambda>a b. p b \<le> p a) (array_sort cmp xs)"
    by (rule sorted_array_sort[OF assms])
  have "array_sort cmp (x # xs) = insert_by cmp x (array_sort cmp xs)"
    by (simp add: array_sort_def)
  with filter_insert_by[OF assms s, of k x] Cons show ?case by simp
qed

lemma indexOf_ge: "- 1 \<le> indexOf xs x"
  by (induction xs) (auto simp: Let_def)

lemma indexOf_none: "indexOf xs x = - 1 \<longleftrightarrow> x \<notin> set xs"
proof (induction xs)
  case Nil
  then show ?case by simp
next
  case (Cons y ys)
  have "- 1 \<le> indexOf ys x" by (rule indexOf_ge)
  with Cons show ?case by (auto simp: Let_def)
qed

lemma array_map_nth:
  "array_map f xs = Inr ys \<Longrightarrow> length ys = length xs \<and> (\<forall>i<length xs. f (xs ! i) = Inr (ys ! i))"
proof (induction xs arbitrary: ys)
  case Nil
  then show ?case by simp
next
  case (Cons x xs)
  then obtain y ys' where y: "f x = Inr y" and r: "array_map f xs = Inr ys'" and e: "ys = y # ys'"
    by (auto split: sum.splits)
  from Cons.IH[OF r] y e show ?case by (auto simp: nth_Cons split: nat.splits)
qed

lemma array_map_in:
  assumes "array_map f xs = Inr ys" "x \<in> set xs"
  shows "\<exists>y\<in>set ys. f x = Inr y"
proof -
  from assms(2) obtain i where "i < length xs" "xs ! i = x" by (auto simp: in_set_conv_nth)
  with array_map_nth[OF assms(1)] show ?thesis by (metis nth_mem)
qed

lemma array_map_out:
  assumes "array_map f xs = Inr ys" "y \<in> set ys"
  shows "\<exists>x\<in>set xs. f x = Inr y"
proof -
  from assms(2) obtain i where "i < length ys" "ys ! i = y" by (auto simp: in_set_conv_nth)
  with array_map_nth[OF assms(1)] show ?thesis by (metis nth_mem)
qed

lemma array_map_returns_iff:
  "(\<exists>ys. array_map f xs = Inr ys) \<longleftrightarrow> (\<forall>x\<in>set xs. \<exists>y. f x = Inr y)"
  by (induction xs) (auto split: sum.splits)

lemma array_map_Inl:
  "array_map f xs = Inl err \<Longrightarrow> \<exists>x\<in>set xs. f x = Inl err"
  by (induction xs) (auto split: sum.splits)

lemma sum_list_map_update:
  "i < length xs \<Longrightarrow>
   sum_list (map f (xs[i := x])) = sum_list (map f xs) - f (xs ! i) + (f x :: int)"
  by (induction xs arbitrary: i) (auto simp: nth_Cons split: nat.splits)

lemma bex_ex: "\<exists>x\<in>A. P x \<Longrightarrow> \<exists>x. P x"
  by blast

subsection \<open>Numbers\<close>

declare ulp.simps [simp del]

declare js_add.simps [simp del]

lemma js_add_Fin: "js_add (Fin a) (Fin b) = to_double (a + b)"
  by (simp add: js_add.simps)

lemma ulp_small: "n < 2 ^ 53 \<Longrightarrow> ulp n = 1"
  by (subst ulp.simps) simp

lemma ulp_big: "\<not> n < 2 ^ 53 \<Longrightarrow> ulp n = 2 * ulp (n div 2)"
  by (subst ulp.simps) simp

text \<open>Below \<open>2 ^ 53\<close> every integer is a double and the sum of two numbers is exact.\<close>

lemma to_double_exact: "\<bar>x\<bar> < 2 ^ 53 \<Longrightarrow> to_double x = Fin x"
proof -
  assume a: "\<bar>x\<bar> < 2 ^ 53"
  then have "nat \<bar>x\<bar> < 2 ^ 53" by (simp add: nat_less_iff)
  then have u: "ulp (nat \<bar>x\<bar>) = 1" by (rule ulp_small)
  have r: "round_even x 1 = x" by (simp add: round_even_def)
  have "(2::int) ^ 53 \<le> 2 ^ 1024" by (rule power_increasing) simp_all
  with a have "x < 2 ^ 1024" "- (2 ^ 1024) < x" by linarith+
  then show ?thesis by (simp add: to_double_def u r)
qed

lemma js_add_exact: "\<bar>a + b\<bar> < 2 ^ 53 \<Longrightarrow> js_add (Fin a) (Fin b) = Fin (a + b)"
  by (simp add: js_add_Fin to_double_exact)

lemma nth_le_sum_list:
  "\<forall>x\<in>set xs. (0::int) \<le> x \<Longrightarrow> i < length xs \<Longrightarrow> xs ! i \<le> sum_list xs"
proof (induction xs arbitrary: i)
  case Nil
  then show ?case by simp
next
  case (Cons x xs)
  then have "0 \<le> sum_list xs" by (simp add: sum_list_nonneg)
  with Cons show ?case by (cases i) (auto simp: add_increasing add_increasing2)
qed

lemma sum_list_update_int:
  "i < length xs \<Longrightarrow> sum_list (xs[i := x]) = sum_list xs - xs ! i + (x :: int)"
  using sum_list_map_update[of i xs "\<lambda>x. x" x] by simp


section \<open>Lemmas on dataProcessing\<close>

subsection \<open>The priority sort\<close>

lemma priority_unmatched:
  "priority arr v = 0 \<longleftrightarrow> trim (friendly_name v) \<notin> set arr"
proof -
  have "(indexOf arr (trim (friendly_name v)) + 1 = 0) = (indexOf arr (trim (friendly_name v)) = - 1)"
    by arith
  then show ?thesis by (simp add: priority_def indexOf_none)
qed

lemma priority_matched:
  "trim (friendly_name v) \<in> set arr \<longleftrightarrow> 1 \<le> priority arr v"
  using indexOf_none[of arr "trim (friendly_name v)"] indexOf_ge[of arr "trim (friendly_name v)"]
  by (auto simp: priority_def)

lemma priority_nonneg: "0 \<le> priority arr v"
  using indexOf_ge[of arr "trim (friendly_name v)"] by (simp add: priority_def)

lemma sortCompare_eq: "sortCompare arr v1 v2 = priority arr v2 - priority arr v1"
  using priority_nonneg[of arr v1] priority_nonneg[of arr v2]
  by (simp add: sortCompare_def Let_def)

lemma sorted_priority:
  "sorted_wrt (\<lambda>a b. priority arr b \<le> priority arr a) (array_sort (sortCompare arr) ms)"
  by (rule sorted_array_sort) (auto simp: sortCompare_eq)

lemma unmatched_behind:
  assumes "i < j" "j < length (array_sort (sortCompare arr) ms)"
      and "trim (friendly_name (array_sort (sortCompare arr) ms ! i)) \<notin> set arr"
  shows "trim (friendly_name (array_sort (sortCompare arr) ms ! j)) \<notin> set arr"
proof -
  let ?out = "array_sort (sortCompare arr) ms"
  from sorted_priority[of arr ms] assms(1,2)
  have "priority arr (?out ! j) \<le> priority arr (?out ! i)"
    by (simp add: sorted_wrt_iff_nth_less)
  moreover from assms(3) have "priority arr (?out ! i) = 0" by (simp add: priority_unmatched)
  ultimately have "priority arr (?out ! j) = 0" using priority_nonneg[of arr "?out ! j"] by simp
  then show ?thesis by (simp add: priority_unmatched)
qed

lemma sortData_Some:
  obtains ms' where "sortData e (Some ms) = Some ms'" "mset ms' = mset ms"
  by (cases "VITE_SITE_SORT e") (auto simp: sortData_def mset_array_sort)

lemma sortData_set: "sortData e (Some ms) = Some ms' \<Longrightarrow> set ms' = set ms"
  by (metis sortData_Some option.inject set_mset_mset)

subsection \<open>The loop over the dates\<close>

lemma forEachDate_fold_snd:
  "snd (fold (\<lambda>(index, d) (mp, dly).
            (mp(dayjs_format e d \<mapsto> index),
             dly @ [\<lparr>date = d, uptime = formatNumber e (at ranges index), down = emptyCounts\<rparr>]))
          (enumerate n ds) (mp0, dly0))
   = dly0 @ map (\<lambda>(index, d). \<lparr>date = d, uptime = formatNumber e (at ranges index), down = emptyCounts\<rparr>) (enumerate n ds)"
  by (induction ds arbitrary: n mp0 dly0) auto

lemma forEachDate_fold_fst:
  "fst (fold (\<lambda>(index, d) (mp, dly).
            (mp(dayjs_format e d \<mapsto> index),
             dly @ [\<lparr>date = d, uptime = formatNumber e (at ranges index), down = emptyCounts\<rparr>]))
          (enumerate n ds) (mp0, dly0))
   = mp0 ++ map_of (rev (map (\<lambda>(index, d). (dayjs_format e d, index)) (enumerate n ds)))"
  by (induction ds arbitrary: n mp0 dly0) (auto simp: map_add_def split: option.splits)

lemma forEachDate_daily:
  "snd (forEachDate e ranges dates) =
     map (\<lambda>(index, d). \<lparr>date = d, uptime = formatNumber e (at ranges index), down = emptyCounts\<rparr>)
       (enumerate 0 dates)"
  unfolding forEachDate_def by (simp add: forEachDate_fold_snd)

lemma forEachDate_map:
  "fst (forEachDate e ranges dates) =
     map_of (rev (map (\<lambda>(index, d). (dayjs_format e d, index)) (enumerate 0 dates)))"
  unfolding forEachDate_def by (simp add: forEachDate_fold_fst)

lemma forEachDate_length: "length (snd (forEachDate e ranges dates)) = length dates"
  by (simp add: forEachDate_daily)

lemma forEachDate_nth:
  "i < length dates \<Longrightarrow>
   snd (forEachDate e ranges dates) ! i =
     \<lparr>date = dates ! i, uptime = formatNumber e (at ranges i), down = emptyCounts\<rparr>"
  by (simp add: forEachDate_daily nth_enumerate_eq)

lemma forEachDate_map_Some:
  assumes "fst (forEachDate e ranges dates) k = Some i"
  shows "i < length dates \<and> dayjs_format e (dates ! i) = k"
proof -
  from assms have "(k, i) \<in> set (map (\<lambda>(index, d). (dayjs_format e d, index)) (enumerate 0 dates))"
    by (auto simp: forEachDate_map dest!: map_of_SomeD)
  then obtain j d where "(j, d) \<in> set (enumerate 0 dates)" "k = dayjs_format e d" "i = j"
    by auto
  then show ?thesis by (auto simp: in_set_enumerate_eq)
qed

lemma forEachDate_map_None:
  "fst (forEachDate e ranges dates) k = None \<longleftrightarrow> k \<notin> dayjs_format e ` set dates"
proof -
  have "fst ` (\<lambda>(index, d). (dayjs_format e d, index)) ` set (enumerate 0 dates)
          = dayjs_format e ` set dates"
  proof -
    have "fst ` (\<lambda>(index, d). (dayjs_format e d, index)) ` set (enumerate 0 dates)
            = (dayjs_format e \<circ> snd) ` set (enumerate 0 dates)"
      by (force simp: image_iff)
    also have "\<dots> = dayjs_format e ` snd ` set (enumerate 0 dates)"
      by (simp only: image_comp)
    also have "snd ` set (enumerate 0 dates) = set dates"
      by (metis list.set_map map_snd_enumerate)
    finally show ?thesis .
  qed
  then show ?thesis
    by (simp add: forEachDate_map map_of_eq_None_iff image_image)
qed

lemma forEachDate_map_distinct:
  assumes "distinct (map (dayjs_format e) dates)" "i < length dates"
  shows "fst (forEachDate e ranges dates) (dayjs_format e (dates ! i)) = Some i"
proof -
  have "fst (forEachDate e ranges dates) (dayjs_format e (dates ! i)) \<noteq> None"
    using assms(2) by (simp add: forEachDate_map_None)
  then obtain j where j: "fst (forEachDate e ranges dates) (dayjs_format e (dates ! i)) = Some j"
    by auto
  from forEachDate_map_Some[OF j] have "j < length dates"
    "dayjs_format e (dates ! j) = dayjs_format e (dates ! i)" by auto
  with assms have "j = i"
    by (metis length_map nth_eq_iff_index_eq nth_map)
  with j show ?thesis by simp
qed

lemma forEachDate_down:
  "i < length dates \<Longrightarrow> down (snd (forEachDate e ranges dates) ! i) = emptyCounts"
  by (simp add: forEachDate_nth)



subsection \<open>The fold over the logs\<close>

lemma calculateTotal_not_down:
  "type_l lg \<noteq> 1 \<Longrightarrow> calculateTotal e mp (tot, dly) lg = Inr (tot, dly)"
  by (simp add: calculateTotal_def)

lemma calculateTotal_down:
  "type_l lg = 1 \<Longrightarrow> mp (dayKey e lg) = Some i \<Longrightarrow> i < length dly \<Longrightarrow>
   calculateTotal e mp (tot, dly) lg =
     Inr (\<lparr>times_n = js_add (times_n tot) (Fin 1),
           duration_n = js_add (duration_n tot) (to_double (duration lg))\<rparr>,
          dly[i := addDown (to_double (duration lg)) (dly ! i)])"
  by (simp add: calculateTotal_def Let_def)

lemma calculateTotal_downE:
  assumes "calculateTotal e mp (tot, dly) lg = Inr (tot', dly')" and "type_l lg = 1"
  obtains i where "mp (dayKey e lg) = Some i" and "i < length dly"
    and "tot' = \<lparr>times_n = js_add (times_n tot) (Fin 1),
                  duration_n = js_add (duration_n tot) (to_double (duration lg))\<rparr>"
    and "dly' = dly[i := addDown (to_double (duration lg)) (dly ! i)]"
  using assms by (auto simp: calculateTotal_def Let_def split: option.splits if_splits)

lemma calculateTotal_throws:
  "type_l lg = 1 \<Longrightarrow> mp (dayKey e lg) = None \<Longrightarrow>
   calculateTotal e mp (tot, dly) lg = Inl TypeError"
  by (simp add: calculateTotal_def)

lemma calculateTotal_Inl:
  "calculateTotal e mp acc lg = Inl err \<Longrightarrow> err = TypeError"
  by (auto simp: calculateTotal_def Let_def split: prod.splits if_splits option.splits)

lemma calculateTotal_frame:
  assumes "calculateTotal e mp (tot, dly) lg = Inr (tot', dly')"
  shows "length dly' = length dly \<and> map date dly' = map date dly \<and> map uptime dly' = map uptime dly"
  using assms
  by (auto simp: calculateTotal_def Let_def addDown_def map_update list_update_same_conv
           split: if_splits option.splits)

lemma reduce_frame:
  "reduce (calculateTotal e mp) (tot, dly) ls = Inr (tot', dly') \<Longrightarrow>
   length dly' = length dly \<and> map date dly' = map date dly \<and> map uptime dly' = map uptime dly"
proof (induction ls arbitrary: tot dly)
  case Nil
  then show ?case by simp
next
  case (Cons l ls)
  then obtain t1 d1 where s: "calculateTotal e mp (tot, dly) l = Inr (t1, d1)"
    and r: "reduce (calculateTotal e mp) (t1, d1) ls = Inr (tot', dly')"
    by (auto split: sum.splits)
  from calculateTotal_frame[OF s] Cons.IH[OF r] show ?case by simp
qed

lemma reduce_Inl:
  "reduce (calculateTotal e mp) acc ls = Inl err \<Longrightarrow> err = TypeError"
  by (induction ls arbitrary: acc) (auto split: sum.splits dest: calculateTotal_Inl)

lemma reduce_returns_iff:
  assumes "\<forall>k i. mp k = Some i \<longrightarrow> i < length dly"
  shows "(\<exists>r. reduce (calculateTotal e mp) (tot, dly) ls = Inr r) \<longleftrightarrow>
         (\<forall>l\<in>set ls. type_l l = 1 \<longrightarrow> mp (dayKey e l) \<noteq> None)"
  using assms
proof (induction ls arbitrary: tot dly)
  case Nil
  then show ?case by simp
next
  case (Cons l ls)
  show ?case
  proof (cases "type_l l = 1")
    case False
    with Cons show ?thesis by (simp add: calculateTotal_not_down)
  next
    case True
    show ?thesis
    proof (cases "mp (dayKey e l)")
      case None
      with True show ?thesis by (auto simp: calculateTotal_throws)
    next
      case (Some i)
      with Cons.prems have i: "i < length dly" by blast
      have "\<forall>k j. mp k = Some j \<longrightarrow> j < length (dly[i := addDown (to_double (duration l)) (dly ! i)])"
        using Cons.prems by simp
      from Cons.IH[OF this] True Some i show ?thesis
        by (simp add: calculateTotal_down)
    qed
  qed
qed

text \<open>The total after the fold, as the sum that JavaScript computes.\<close>

lemma reduce_total:
  "reduce (calculateTotal e mp) (tot, dly) ls = Inr (tot', dly') \<Longrightarrow>
   times_n tot' = foldl js_add (times_n tot)
                    (map (\<lambda>l. Fin 1) (filter (\<lambda>l. type_l l = 1) ls)) \<and>
   duration_n tot' = foldl js_add (duration_n tot)
                    (map (\<lambda>l. to_double (duration l)) (filter (\<lambda>l. type_l l = 1) ls))"
proof (induction ls arbitrary: tot dly)
  case Nil
  then show ?case by simp
next
  case (Cons l ls)
  then obtain t1 d1 where s: "calculateTotal e mp (tot, dly) l = Inr (t1, d1)"
    and r: "reduce (calculateTotal e mp) (t1, d1) ls = Inr (tot', dly')"
    by (auto split: sum.splits)
  show ?case
  proof (cases "type_l l = 1")
    case False
    with s have "t1 = tot" by (simp add: calculateTotal_not_down)
    with Cons.IH[OF r] False show ?thesis by simp
  next
    case True
    from calculateTotal_downE[OF s True] have
      "t1 = \<lparr>times_n = js_add (times_n tot) (Fin 1),
             duration_n = js_add (duration_n tot) (to_double (duration l))\<rparr>"
      by blast
    with Cons.IH[OF r] True show ?thesis by simp
  qed
qed

text \<open>
  With logs of non-negative duration, fewer than \<open>2 ^ 53\<close> of them and a sum of durations
  below \<open>2 ^ 53\<close>, every number of the fold is the integer it stands for, and the total stays
  the sum of the buckets.
\<close>

lemma reduce_exact:
  assumes "reduce (calculateTotal e mp) (tot, dly) ls = Inr (tot', dly')"
      and "map (\<lambda>b. times_n (down b)) dly = map Fin ts"
      and "map (\<lambda>b. duration_n (down b)) dly = map Fin ds"
      and "times_n tot = Fin (sum_list ts)"
      and "duration_n tot = Fin (sum_list ds)"
      and "\<forall>t\<in>set ts. 0 \<le> t"
      and "\<forall>d\<in>set ds. 0 \<le> d"
      and "\<forall>l\<in>set ls. type_l l = 1 \<longrightarrow> 0 \<le> duration l"
      and "sum_list ts + int (length (filter (\<lambda>l. type_l l = 1) ls)) < 2 ^ 53"
      and "sum_list ds + sum_list (map duration (filter (\<lambda>l. type_l l = 1) ls)) < 2 ^ 53"
  shows "\<exists>ts' ds'. map (\<lambda>b. times_n (down b)) dly' = map Fin ts' \<and>
                    map (\<lambda>b. duration_n (down b)) dly' = map Fin ds' \<and>
                    times_n tot' = Fin (sum_list ts') \<and>
                    duration_n tot' = Fin (sum_list ds')"
  using assms
proof (induction ls arbitrary: tot dly ts ds)
  case Nil
  then show ?case by auto
next
  case (Cons l ls)
  from Cons.prems(1) obtain t1 d1 where s: "calculateTotal e mp (tot, dly) l = Inr (t1, d1)"
    and r: "reduce (calculateTotal e mp) (t1, d1) ls = Inr (tot', dly')"
    by (auto split: sum.splits)
  have rest: "\<forall>l\<in>set ls. type_l l = 1 \<longrightarrow> 0 \<le> duration l" using Cons.prems(8) by simp
  show ?case
  proof (cases "type_l l = 1")
    case False
    with s have e: "t1 = tot" "d1 = dly" by (simp_all add: calculateTotal_not_down)
    from Cons.prems(9,10) False have
      "sum_list ts + int (length (filter (\<lambda>l. type_l l = 1) ls)) < 2 ^ 53"
      "sum_list ds + sum_list (map duration (filter (\<lambda>l. type_l l = 1) ls)) < 2 ^ 53"
      by simp_all
    from Cons.IH[OF r[unfolded e] Cons.prems(2,3,4,5,6,7) rest this] show ?thesis .
  next
    case True
    let ?d = "duration l"
    let ?cnt = "int (length (filter (\<lambda>l. type_l l = 1) ls))"
    let ?sum = "sum_list (map duration (filter (\<lambda>l. type_l l = 1) ls))"
    from calculateTotal_downE[OF s True] obtain i where i: "i < length dly"
      and t1: "t1 = \<lparr>times_n = js_add (times_n tot) (Fin 1),
                     duration_n = js_add (duration_n tot) (to_double ?d)\<rparr>"
      and d1: "d1 = dly[i := addDown (to_double ?d) (dly ! i)]"
      by blast
    have d0: "0 \<le> ?d" using Cons.prems(8) True by simp
    have s0: "0 \<le> ?sum" using rest by (intro sum_list_nonneg) auto
    have c0: "0 \<le> ?cnt" by simp
    have bt: "sum_list ts + 1 + ?cnt < 2 ^ 53" using Cons.prems(9) True by simp
    have bd: "sum_list ds + ?d + ?sum < 2 ^ 53" using Cons.prems(10) True by simp
    have lt: "length ts = length dly" using Cons.prems(2) by (metis length_map)
    have ld: "length ds = length dly" using Cons.prems(3) by (metis length_map)
    have ti: "times_n (down (dly ! i)) = Fin (ts ! i)"
      using Cons.prems(2) i lt by (metis nth_map)
    have di: "duration_n (down (dly ! i)) = Fin (ds ! i)"
      using Cons.prems(3) i ld by (metis nth_map)
    have tn: "0 \<le> ts ! i" "ts ! i \<le> sum_list ts" "0 \<le> sum_list ts"
      using Cons.prems(6) i lt by (simp_all add: nth_le_sum_list sum_list_nonneg)
    have dn: "0 \<le> ds ! i" "ds ! i \<le> sum_list ds" "0 \<le> sum_list ds"
      using Cons.prems(7) i ld by (simp_all add: nth_le_sum_list sum_list_nonneg)
    have dd: "to_double ?d = Fin ?d"
      using d0 dn(3) s0 bd by (intro to_double_exact) simp
    have a1: "js_add (Fin (ts ! i)) (Fin 1) = Fin (ts ! i + 1)"
      using tn c0 bt by (intro js_add_exact) simp
    have a2: "js_add (Fin (sum_list ts)) (Fin 1) = Fin (sum_list ts + 1)"
      using tn c0 bt by (intro js_add_exact) simp
    have a3: "js_add (Fin (ds ! i)) (Fin ?d) = Fin (ds ! i + ?d)"
      using dn d0 s0 bd by (intro js_add_exact) simp
    have a4: "js_add (Fin (sum_list ds)) (Fin ?d) = Fin (sum_list ds + ?d)"
      using dn d0 s0 bd by (intro js_add_exact) simp
    let ?ts = "ts[i := ts ! i + 1]"
    let ?ds = "ds[i := ds ! i + ?d]"
    have m1: "map (\<lambda>b. times_n (down b)) d1 = map Fin ?ts"
      using Cons.prems(2) by (simp add: d1 map_update addDown_def ti a1)
    have m2: "map (\<lambda>b. duration_n (down b)) d1 = map Fin ?ds"
      using Cons.prems(3) by (simp add: d1 map_update addDown_def di dd a3)
    have s1: "sum_list ?ts = sum_list ts + 1" using i lt by (simp add: sum_list_update_int)
    have s2: "sum_list ?ds = sum_list ds + ?d" using i ld by (simp add: sum_list_update_int)
    have t1a: "times_n t1 = Fin (sum_list ?ts)"
      by (simp only: t1 s1 Cons.prems(4) a2 counts.simps)
    have t1b: "duration_n t1 = Fin (sum_list ?ds)"
      by (simp only: t1 s2 Cons.prems(5) dd a4 counts.simps)
    have n1: "\<forall>t\<in>set ?ts. 0 \<le> t"
      using Cons.prems(6) tn(1) by (auto dest!: set_update_subset_insert[THEN subsetD])
    have n2: "\<forall>d\<in>set ?ds. 0 \<le> d"
      using Cons.prems(7) dn(1) d0 by (auto dest!: set_update_subset_insert[THEN subsetD])
    have b1: "sum_list ?ts + ?cnt < 2 ^ 53" using bt by (simp add: s1)
    have b2: "sum_list ?ds + ?sum < 2 ^ 53" using bd by (simp add: s2)
    from Cons.IH[OF r m1 m2 t1a t1b n1 n2 rest b1 b2] show ?thesis .
  qed
qed


subsection \<open>One monitor and all monitors\<close>

lemma processMonitor_Inr:
  assumes "processMonitor e dates m = Inr r"
  obtains tot dly where
    "reduce (calculateTotal e (fst (forEachDate e (snd (pop (split_on CHR ''-'' (custom_uptime_ranges m)))) dates)))
       (emptyCounts, snd (forEachDate e (snd (pop (split_on CHR ''-'' (custom_uptime_ranges m)))) dates)) (logs m)
     = Inr (tot, dly)"
    "r = \<lparr>id_s = id_m m, name_s = friendly_name m, url_s = url_m m,
          average = formatNumber e (fst (pop (split_on CHR ''-'' (custom_uptime_ranges m)))),
          daily = dly, total = tot, status_s = statusOf (status_m m)\<rparr>"
  using assms
  by (auto simp: processMonitor_def split: prod.splits sum.splits)

lemma processMonitor_returns_iff:
  "(\<exists>r. processMonitor e dates m = Inr r) \<longleftrightarrow>
   (\<forall>l\<in>set (logs m). type_l l = 1 \<longrightarrow> dayKey e l \<in> dayjs_format e ` set dates)"
proof -
  let ?fd = "forEachDate e (snd (pop (split_on CHR ''-'' (custom_uptime_ranges m)))) dates"
  have b: "\<forall>k i. fst ?fd k = Some i \<longrightarrow> i < length (snd ?fd)"
    using forEachDate_map_Some by (fastforce simp: forEachDate_length)
  have "(\<exists>r. processMonitor e dates m = Inr r) \<longleftrightarrow>
        (\<exists>r. reduce (calculateTotal e (fst ?fd)) (emptyCounts, snd ?fd) (logs m) = Inr r)"
    by (auto simp: processMonitor_def split: prod.splits sum.splits)
  also have "\<dots> \<longleftrightarrow> (\<forall>l\<in>set (logs m). type_l l = 1 \<longrightarrow> fst ?fd (dayKey e l) \<noteq> None)"
    by (rule reduce_returns_iff[OF b])
  finally show ?thesis by (simp add: forEachDate_map_None)
qed

lemma processMonitor_Inl: "processMonitor e dates m = Inl err \<Longrightarrow> err = TypeError"
  by (auto simp: processMonitor_def split: prod.splits sum.splits dest: reduce_Inl)

lemma processMonitor_daily:
  assumes "processMonitor e dates m = Inr r"
  shows "length (daily r) = length dates"
    and "i < length dates \<Longrightarrow> date (daily r ! i) = dates ! i"
    and "i < length dates \<Longrightarrow>
         uptime (daily r ! i) =
           formatNumber e (at (snd (pop (split_on CHR ''-'' (custom_uptime_ranges m)))) i)"
proof -
  let ?rg = "snd (pop (split_on CHR ''-'' (custom_uptime_ranges m)))"
  from assms obtain tot dly where
    red: "reduce (calculateTotal e (fst (forEachDate e ?rg dates)))
            (emptyCounts, snd (forEachDate e ?rg dates)) (logs m) = Inr (tot, dly)"
    and r: "daily r = dly"
    by (auto elim!: processMonitor_Inr)
  from reduce_frame[OF red] have
    len: "length dly = length (snd (forEachDate e ?rg dates))"
    and d: "map date dly = map date (snd (forEachDate e ?rg dates))"
    and u: "map uptime dly = map uptime (snd (forEachDate e ?rg dates))"
    by auto
  show "length (daily r) = length dates" using len r by (simp add: forEachDate_length)
  assume i: "i < length dates"
  then have i': "i < length dly" "i < length (snd (forEachDate e ?rg dates))"
    using len by (simp_all add: forEachDate_length)
  have "date (dly ! i) = map date dly ! i" using i' by simp
  also have "\<dots> = date (snd (forEachDate e ?rg dates) ! i)" using i' by (simp add: d)
  finally show "date (daily r ! i) = dates ! i" using i r by (simp add: forEachDate_nth)
  have "uptime (dly ! i) = map uptime dly ! i" using i' by simp
  also have "\<dots> = uptime (snd (forEachDate e ?rg dates) ! i)" using i' by (simp add: u)
  finally show "uptime (daily r ! i) = formatNumber e (at ?rg i)"
    using i r by (simp add: forEachDate_nth)
qed

lemma processMonitor_average:
  "processMonitor e dates m = Inr r \<Longrightarrow>
   average r = formatNumber e (fst (pop (split_on CHR ''-'' (custom_uptime_ranges m))))"
  by (auto elim!: processMonitor_Inr)

lemma processMonitor_status:
  "processMonitor e dates m = Inr r \<Longrightarrow> status_s r = statusOf (status_m m)"
  by (auto elim!: processMonitor_Inr)

lemma processMonitor_ids:
  "processMonitor e dates m = Inr r \<Longrightarrow>
   id_s r = id_m m \<and> name_s r = friendly_name m \<and> url_s r = url_m m"
  by (auto elim!: processMonitor_Inr)

lemma dataProcessing_SomeD:
  assumes "dataProcessing e (Some ms) dates = Inr (Some sites)"
  obtains ms' where "sortData e (Some ms) = Some ms'" "set ms' = set ms"
    "array_map (processMonitor e dates) ms' = Inr sites"
proof -
  obtain ms' where s: "sortData e (Some ms) = Some ms'" by (rule sortData_Some)
  with assms have "array_map (processMonitor e dates) ms' = Inr sites"
    by (auto simp: dataProcessing_def split: sum.splits)
  with s sortData_set[OF s] that show ?thesis by blast
qed






section \<open>Lemmas on changeSite\<close>

lemma changeSite_state:
  "siteState (snd (changeSite (Some sites) (Some href, st))) =
     (if \<forall>s\<in>set sites. status_s s = ''ok'' then ''normal''
      else if \<exists>s\<in>set sites. status_s s = ''ok'' then ''error'' else ''allError'')"
  by (simp add: changeSite_def Let_def changeSiteState_def changeSiteOverview_def
        list_all_iff list_ex_iff)

section \<open>Lemmas on getSiteData\<close>

lemma getDates_empty: "getDates e w days = [] \<longleftrightarrow> days \<le> 0"
  by (simp add: getDates_def)

lemma getDates_length: "length (getDates e w days) = nat days"
  by (simp add: getDates_def)

lemma fromCache_quiet:
  "requests (fromCache e w dates entry st) = [] \<and> cache_writes (fromCache e w dates entry st) = []"
  by (simp add: fromCache_def Let_def split: sum.splits prod.splits)

lemma fromCache_outcome:
  "outcome (fromCache e w dates entry st) =
     (case dataProcessing e (Some (data_c entry)) dates of
        Inl err \<Rightarrow> Pending | Inr processed \<Rightarrow> Resolved processed)"
  by (simp add: fromCache_def Let_def split: sum.splits prod.splits)

lemma fromCache_cache:
  "cache_after (fromCache e w dates entry st) =
     Some (entry\<lparr>data_c := sortedInPlace e (data_c entry)\<rparr>)"
  by (simp add: fromCache_def Let_def split: sum.splits prod.splits)

lemma getMonitorsData_requests:
  "snd (snd (getMonitorsData e w pd st)) = [(apiUrl e, usp_toString (form_params pd))]"
  by (simp add: getMonitorsData_def Let_def split: sum.splits option.splits)

lemma getMonitorsData_result:
  "fst (getMonitorsData e w pd st) =
     (case axios_post w (apiUrl e) (usp_toString (form_params pd)) of
        Inl err \<Rightarrow> Inl err
      | Inr None \<Rightarrow> Inr None
      | Inr (Some d) \<Rightarrow> if stat d = ''fail'' then Inl (ApiError (apiErrorMessage d)) else Inr (Some d))"
  by (simp add: getMonitorsData_def Let_def split: sum.splits option.splits)

lemma fromNetwork_requests:
  "requests (fromNetwork e w apikey dates cache st) =
     [(apiUrl e, usp_toString (form_params (makePostdata e apikey dates)))]"
  using getMonitorsData_requests[of e w "makePostdata e apikey dates" st]
  by (auto simp: fromNetwork_def Let_def split: prod.splits sum.splits option.splits)

lemma fromNetwork_Inl:
  assumes "fst (getMonitorsData e w (makePostdata e apikey dates) st) = Inl err"
  shows "outcome (fromNetwork e w apikey dates cache st) = Rejected err \<and>
         cache_after (fromNetwork e w apikey dates cache st) = cache \<and>
         cache_writes (fromNetwork e w apikey dates cache st) = []"
  using assms by (auto simp: fromNetwork_def split: prod.splits)

lemma fromNetwork_stored:
  assumes "fst (getMonitorsData e w (makePostdata e apikey dates) st) = Inr (Some d)"
      and "monitors d = Some ms"
  shows "cache_writes (fromNetwork e w apikey dates cache st) =
           [\<lparr>data_c = ms, timestamp = now_store w\<rparr>] \<and>
         cache_after (fromNetwork e w apikey dates cache st) =
           Some \<lparr>data_c = sortedInPlace e ms, timestamp = now_store w\<rparr>"
  using assms
  by (auto simp: fromNetwork_def Let_def changeSiteData_def split: prod.splits sum.splits)

lemma fromNetwork_writes:
  assumes "cache_writes (fromNetwork e w apikey dates cache st) \<noteq> []"
  shows "\<exists>d ms. fst (getMonitorsData e w (makePostdata e apikey dates) st) = Inr (Some d) \<and>
           monitors d = Some ms"
  using assms
  by (auto simp: fromNetwork_def Let_def split: prod.splits sum.splits option.splits)

lemma sortedInPlace_mset: "mset (sortedInPlace e ms) = mset ms"
  by (cases "VITE_SITE_SORT e") (auto simp: sortedInPlace_def sortData_def mset_array_sort)

lemma sortedInPlace_unsorted: "VITE_SITE_SORT e = None \<Longrightarrow> sortedInPlace e ms = ms"
  by (simp add: sortedInPlace_def sortData_def)

lemma getSiteData_hit:
  assumes "0 < days" "cache = Some entry" "now_check w - timestamp entry < 60 * 1000"
  shows "getSiteData e w apikey days cache st =
           fromCache e w (getDates e w days) entry (changeSiteState ''loading'' st)"
  using assms by (simp add: getSiteData_def Let_def getDates_empty cacheDuration_def)

lemma getSiteData_miss:
  assumes "0 < days"
      and "cache = None \<or> (\<exists>entry. cache = Some entry \<and> 60 * 1000 \<le> now_check w - timestamp entry)"
  shows "getSiteData e w apikey days cache st =
           fromNetwork e w apikey (getDates e w days) cache (changeSiteState ''loading'' st)"
  using assms by (auto simp: getSiteData_def Let_def getDates_empty cacheDuration_def)

lemma getSiteData_no_dates:
  assumes "days \<le> 0"
  shows "getSiteData e w apikey days cache st =
           \<lparr>outcome = Rejected TypeError, cache_after = cache, cache_writes = [], requests = [],
            status_after = changeSiteState ''wrong'' (changeSiteState ''loading'' st),
            favicon_after = faviconLink w\<rparr>"
  using assms by (simp add: getSiteData_def Let_def getDates_empty)

section \<open>Lemmas on the proxy endpoint\<close>

subsection \<open>Text\<close>

lemma continuation_0 [simp]: "continuation 0 lo hi bs = (True, 0)"
  by (cases bs) simp_all

lemma continuation_bound:
  "continuation k lo hi bs = (ok, n) \<Longrightarrow> n \<le> length bs \<and> n \<le> k \<and> (ok \<longrightarrow> n = k)"
proof (induction bs arbitrary: k lo hi ok n)
  case Nil
  then show ?case by auto
next
  case (Cons c cs)
  show ?case
  proof (cases "k \<noteq> 0 \<and> lo \<le> of_char c \<and> of_char c \<le> hi")
    case True
    obtain ok' n' where c: "continuation (k - 1) 128 191 cs = (ok', n')"
      by (cases "continuation (k - 1) 128 191 cs")
    from Cons.IH[OF c] Cons.prems True c show ?thesis by auto
  next
    case False
    with Cons.prems show ?thesis by (auto split: if_splits)
  qed
qed

lemma continuation_prefix:
  "continuation k lo hi bs = (True, n) \<Longrightarrow> continuation k lo hi (take n bs @ t) = (True, n)"
proof (induction bs arbitrary: k lo hi n)
  case Nil
  then show ?case by simp
next
  case (Cons c cs)
  show ?case
  proof (cases "k = 0")
    case True
    with Cons.prems show ?thesis by simp
  next
    case k: False
    show ?thesis
    proof (cases "lo \<le> of_char c \<and> of_char c \<le> hi")
      case True
      obtain ok' n' where c: "continuation (k - 1) 128 191 cs = (ok', n')"
        by (cases "continuation (k - 1) 128 191 cs")
      with Cons.prems True k have e: "ok' = True" "n = Suc n'" by auto
      from Cons.IH[of "k - 1" 128 191 n'] c e
      have "continuation (k - 1) 128 191 (take n' cs @ t) = (True, n')" by simp
      with True k e show ?thesis by simp
    next
      case False
      with Cons.prems k show ?thesis by auto
    qed
  qed
qed

lemma sequence_bound: "sequence b bs = (ok, n) \<Longrightarrow> n \<le> length bs"
  by (auto simp: sequence_def Let_def split: if_splits dest: continuation_bound)

lemma sequence_prefix:
  "sequence b bs = (True, n) \<Longrightarrow> sequence b (take n bs @ t) = (True, n)"
  by (auto simp: sequence_def Let_def split: if_splits intro: continuation_prefix)

lemma sequence_replacement: "sequence (CHR 0xEF) (CHR 0xBF # CHR 0xBD # t) = (True, 2)"
  by (simp add: sequence_def numeral_2_eq_2)

lemma utf8_text_replacement: "utf8_text (replacement @ t) = replacement @ utf8_text t"
  by (simp add: replacement_def sequence_replacement)

lemma utf8_text_idem: "utf8_text (utf8_text s) = utf8_text s"
proof (induction s rule: utf8_text.induct)
  case 1
  then show ?case by simp
next
  case (2 b bs)
  obtain ok n where s: "sequence b bs = (ok, n)" by (cases "sequence b bs")
  note IH = 2[OF s[symmetric]]
  show ?case
  proof (cases ok)
    case True
    from s True have p: "sequence b (take n bs @ utf8_text (drop n bs)) = (True, n)"
      by (simp add: sequence_prefix)
    from sequence_bound[OF s] have l: "length (take n bs) = n" by simp
    from s True have "utf8_text (b # bs) = b # take n bs @ utf8_text (drop n bs)" by simp
    moreover have "utf8_text (b # take n bs @ utf8_text (drop n bs))
        = b # take n bs @ utf8_text (utf8_text (drop n bs))"
      using p l by simp
    ultimately show ?thesis using IH by simp
  next
    case False
    with s have "utf8_text (b # bs) = replacement @ utf8_text (drop n bs)" by simp
    with IH show ?thesis by (simp add: utf8_text_replacement)
  qed
qed

subsection \<open>Parsing what was serialized\<close>

lemma hex_digit_props:
  assumes "n < 16"
  shows "is_hex (hex_digit n)" and "hex_val (hex_digit n) = n"
    and "hex_digit n \<noteq> CHR ''+''" and "hex_digit n \<noteq> CHR ''&''"
    and "hex_digit n \<noteq> CHR ''=''" and "hex_digit n \<noteq> CHR ''?''"
proof -
  have "\<forall>d\<in>set [0..<16]. is_hex (hex_digit d) \<and> hex_val (hex_digit d) = d \<and>
          hex_digit d \<notin> set ''+&=?''"
    by (simp add: upt_rec hex_digit_def is_hex_def hex_val_def)
  moreover from assms have "n \<in> set [0..<16]" by simp
  ultimately have p: "is_hex (hex_digit n) \<and> hex_val (hex_digit n) = n \<and>
          hex_digit n \<notin> set ''+&=?''"
    by (rule bspec)
  from p show "is_hex (hex_digit n)" "hex_val (hex_digit n) = n" by simp_all
  from p show "hex_digit n \<noteq> CHR ''+''" "hex_digit n \<noteq> CHR ''&''"
    "hex_digit n \<noteq> CHR ''=''" "hex_digit n \<noteq> CHR ''?''"
    by auto
qed

lemma of_char_div_16: "(of_char c :: nat) div 16 < 16"
proof -
  have "(of_char c :: nat) mod 256 < 256" by simp
  then have "(of_char c :: nat) < 16 * 16" by (simp only: of_char_mod_256)
  then show ?thesis by (rule less_mult_imp_div_less)
qed

lemma char_of_div_mod: "char_of (16 * ((of_char c :: nat) div 16) + of_char c mod 16) = c"
  by simp

lemma encode_byte_decode:
  "percent_decode (plus_to_space (encode_byte c) @ rest) = c # percent_decode rest"
proof (cases "c = CHR '' ''")
  case True
  then show ?thesis by (simp add: encode_byte_def plus_to_space_def)
next
  case sp: False
  show ?thesis
  proof (cases "unreserved c")
    case True
    then have "c \<noteq> CHR ''+''" "c \<noteq> CHR ''%''" by (auto simp: unreserved_def)
    with True sp show ?thesis by (simp add: encode_byte_def plus_to_space_def)
  next
    case False
    let ?h1 = "hex_digit ((of_char c :: nat) div 16)"
    let ?h2 = "hex_digit ((of_char c :: nat) mod 16)"
    have a: "(of_char c :: nat) div 16 < 16" by (rule of_char_div_16)
    have b: "(of_char c :: nat) mod 16 < 16" by simp
    have e: "encode_byte c = [CHR ''%'', ?h1, ?h2]" using False sp by (simp add: encode_byte_def)
    have p: "plus_to_space [CHR ''%'', ?h1, ?h2] = [CHR ''%'', ?h1, ?h2]"
      using hex_digit_props(3)[OF a] hex_digit_props(3)[OF b] by (simp add: plus_to_space_def)
    have "percent_decode (CHR ''%'' # ?h1 # ?h2 # rest)
            = char_of (16 * hex_val ?h1 + hex_val ?h2) # percent_decode rest"
      using hex_digit_props(1)[OF a] hex_digit_props(1)[OF b] by simp
    also have "char_of (16 * hex_val ?h1 + hex_val ?h2) = c"
      by (simp only: hex_digit_props(2)[OF a] hex_digit_props(2)[OF b] char_of_div_mod)
    finally show ?thesis by (simp add: e p)
  qed
qed

lemma plus_to_space_append: "plus_to_space (a @ b) = plus_to_space a @ plus_to_space b"
  by (simp add: plus_to_space_def)

lemma urlencode_decode: "percent_decode (plus_to_space (urlencode s)) = s"
proof (induction s)
  case Nil
  then show ?case by (simp add: urlencode_def plus_to_space_def)
next
  case (Cons c s)
  have "urlencode (c # s) = encode_byte c @ urlencode s" by (simp add: urlencode_def)
  with Cons show ?case by (simp add: plus_to_space_append encode_byte_decode)
qed

lemma encode_byte_chars:
  "CHR ''&'' \<notin> set (encode_byte c)" "CHR ''='' \<notin> set (encode_byte c)"
  "CHR ''?'' \<notin> set (encode_byte c)"
proof -
  have a: "(of_char c :: nat) div 16 < 16" by (rule of_char_div_16)
  have b: "(of_char c :: nat) mod 16 < 16" by simp
  have u: "unreserved c \<Longrightarrow> c \<noteq> CHR ''&'' \<and> c \<noteq> CHR ''='' \<and> c \<noteq> CHR ''?''"
    by (auto simp: unreserved_def)
  show "CHR ''&'' \<notin> set (encode_byte c)"
    using hex_digit_props(4)[OF a] hex_digit_props(4)[OF b] u
    by (auto simp: encode_byte_def)
  show "CHR ''='' \<notin> set (encode_byte c)"
    using hex_digit_props(5)[OF a] hex_digit_props(5)[OF b] u
    by (auto simp: encode_byte_def)
  show "CHR ''?'' \<notin> set (encode_byte c)"
    using hex_digit_props(6)[OF a] hex_digit_props(6)[OF b] u
    by (auto simp: encode_byte_def)
qed

lemma urlencode_chars:
  "CHR ''&'' \<notin> set (urlencode s)" "CHR ''='' \<notin> set (urlencode s)" "CHR ''?'' \<notin> set (urlencode s)"
  by (simp_all add: urlencode_def encode_byte_chars)

lemma parse_pair_item:
  "parse_pair (urlencode n @ ''='' @ urlencode v) = (utf8_text n, utf8_text v)"
proof -
  have ne: "\<And>x. x \<in> set (urlencode n) \<Longrightarrow> x \<noteq> CHR ''=''"
    using urlencode_chars(2)[of n] by auto
  have t: "takeWhile (\<lambda>c. c \<noteq> CHR ''='') (urlencode n @ CHR ''='' # urlencode v) = urlencode n"
    by (simp add: takeWhile_append2 ne)
  have d: "dropWhile (\<lambda>c. c \<noteq> CHR ''='') (urlencode n @ CHR ''='' # urlencode v)
             = CHR ''='' # urlencode v"
    by (simp add: dropWhile_append2 ne)
  show ?thesis by (simp add: parse_pair_def t d urlencode_decode)
qed

text \<open>Parsing the serialization of a list gives the list back, as text.\<close>

lemma usp_parse_toString:
  "usp_parse (usp_toString ps) = map (\<lambda>(n, v). (utf8_text n, utf8_text v)) ps"
proof (cases ps)
  case Nil
  then show ?thesis by (simp add: usp_parse_def usp_toString_def)
next
  case (Cons p ps')
  let ?item = "\<lambda>(n, v). urlencode n @ ''='' @ urlencode v"
  let ?its = "map ?item ps"
  have ne: "?its \<noteq> []" using Cons by simp
  have amp: "\<forall>x\<in>set ?its. CHR ''&'' \<notin> set x" by (auto simp: urlencode_chars)
  have nonempty: "\<forall>x\<in>set ?its. x \<noteq> []" by auto
  have sp: "split_on CHR ''&'' (join ''&'' ?its) = ?its" using ne amp by (rule split_join)
  have hd: "case usp_toString ps of [] \<Rightarrow> True | c # cs \<Rightarrow> c \<noteq> CHR ''?''"
  proof -
    obtain n v where p: "p = (n, v)" by (cases p)
    have "\<exists>r. usp_toString ps = urlencode n @ CHR ''='' # r"
      using Cons p by (cases ps') (simp_all add: usp_toString_def)
    then obtain r where r: "usp_toString ps = urlencode n @ CHR ''='' # r" by blast
    show ?thesis using urlencode_chars(3)[of n] by (cases "urlencode n") (auto simp: r)
  qed
  then have inp: "(case usp_toString ps of c # cs \<Rightarrow> if c = CHR ''?'' then cs else usp_toString ps
                    | [] \<Rightarrow> usp_toString ps) = usp_toString ps"
    by (simp split: list.splits)
  have f: "filter (\<lambda>sq. sq \<noteq> []) ?its = ?its" using nonempty by (simp add: filter_id_conv)
  have "usp_parse (usp_toString ps) = map parse_pair ?its"
    unfolding usp_parse_def Let_def inp by (simp only: usp_toString_def sp f)
  also have "\<dots> = map (\<lambda>(n, v). (utf8_text n, utf8_text v)) ps"
    by (simp add: split_beta parse_pair_item[simplified] comp_def)
  finally show ?thesis .
qed

lemma usp_parse_text:
  "(n, v) \<in> set (usp_parse t) \<Longrightarrow> utf8_text n = n \<and> utf8_text v = v"
  by (auto simp: usp_parse_def parse_pair_def Let_def utf8_text_idem)

subsection \<open>The handler\<close>

lemma filter_blank_key:
  "filter (\<lambda>q. fst q \<noteq> k) (blank_key k ps) = filter (\<lambda>q. fst q \<noteq> k) ps"
  by (induction ps) (auto simp: blank_key_def)

lemma names_blank_key: "map fst (blank_key k ps) = map fst ps"
  by (induction ps) (auto simp: blank_key_def)

lemma set_first_blank_key: "set_first (blank_key k ps) k v = set_first ps k v"
proof (induction ps)
  case Nil
  then show ?case by (simp add: blank_key_def)
next
  case (Cons p ps)
  have b: "blank_key k (p # ps) = (fst p, if fst p = k then [] else snd p) # blank_key k ps"
    by (simp add: blank_key_def split_beta)
  show ?case
  proof (cases "fst p = k")
    case True
    then show ?thesis by (simp add: b filter_blank_key)
  next
    case False
    with Cons show ?thesis by (simp add: b)
  qed
qed

lemma blank_key_absent: "k \<notin> fst ` set ps \<Longrightarrow> blank_key k ps = ps"
  by (induction ps) (auto simp: blank_key_def)

lemma usp_set_blank_key: "usp_set (blank_key k ps) k v = usp_set ps k v"
proof -
  have n: "fst ` set (blank_key k ps) = fst ` set ps"
    using names_blank_key[of k ps] by (metis list.set_map)
  show ?thesis
  proof (cases "k \<in> fst ` set ps")
    case True
    then show ?thesis by (simp add: usp_set_def n set_first_blank_key)
  next
    case False
    then show ?thesis by (simp add: blank_key_absent)
  qed
qed

lemma usp_set_cong:
  "blank_key k ps = blank_key k qs \<Longrightarrow> usp_set ps k v = usp_set qs k v"
  by (metis usp_set_blank_key)

lemma set_first_key:
  "k \<in> fst ` set ps \<Longrightarrow> filter (\<lambda>q. fst q = k) (set_first ps k v) = [(k, v)]"
  by (induction ps) (auto simp: filter_empty_conv)

lemma set_first_others:
  "filter (\<lambda>q. fst q \<noteq> k) (set_first ps k v) = filter (\<lambda>q. fst q \<noteq> k) ps"
  by (induction ps) auto

lemma usp_set_key: "filter (\<lambda>q. fst q = k) (usp_set ps k v) = [(k, v)]"
proof (cases "k \<in> fst ` set ps")
  case True
  then show ?thesis by (simp add: usp_set_def set_first_key)
next
  case False
  then have "filter (\<lambda>q. fst q = k) ps = []" by (auto simp: filter_empty_conv)
  with False show ?thesis by (simp add: usp_set_def)
qed

lemma usp_set_others:
  "filter (\<lambda>q. fst q \<noteq> k) (usp_set ps k v) = filter (\<lambda>q. fst q \<noteq> k) ps"
  by (simp add: usp_set_def set_first_others)

lemma usp_set_mset:
  "mset (usp_set ps k v) = add_mset (k, v) (mset (filter (\<lambda>q. fst q \<noteq> k) ps))"
proof -
  have "mset (usp_set ps k v) =
          mset (filter (\<lambda>q. fst q = k) (usp_set ps k v)) +
          mset (filter (\<lambda>q. fst q \<noteq> k) (usp_set ps k v))"
    by (simp only: mset_filter multiset_partition[symmetric])
  then show ?thesis by (simp add: usp_set_key usp_set_others)
qed

lemma set_first_subset: "set (set_first ps n v) \<subseteq> insert (n, v) (set ps)"
  by (induction ps) auto

lemma usp_set_subset: "set (usp_set ps n v) \<subseteq> insert (n, v) (set ps)"
  using set_first_subset[of ps n v] by (auto simp: usp_set_def)

lemma utf8_text_ascii: "\<forall>c\<in>set s. (of_char c :: nat) < 128 \<Longrightarrow> utf8_text s = s"
  by (induction s) (simp_all add: sequence_def)

text \<open>The fields of the text that is sent are the parameters after \<^verbatim>\<open>set\<close>.\<close>

lemma usp_parse_sent:
  assumes "utf8_text n = n" and "utf8_text v = v"
  shows "usp_parse (usp_toString (usp_set (usp_parse t) n v)) = usp_set (usp_parse t) n v"
proof -
  have "\<forall>p\<in>set (usp_set (usp_parse t) n v). utf8_text (fst p) = fst p \<and> utf8_text (snd p) = snd p"
  proof
    fix p assume "p \<in> set (usp_set (usp_parse t) n v)"
    with usp_set_subset[of "usp_parse t" n v] have "p = (n, v) \<or> p \<in> set (usp_parse t)" by auto
    then show "utf8_text (fst p) = fst p \<and> utf8_text (snd p) = snd p"
      using assms usp_parse_text[of "fst p" "snd p" t] by auto
  qed
  then have "map (\<lambda>(n, v). (utf8_text n, utf8_text v)) (usp_set (usp_parse t) n v)
               = usp_set (usp_parse t) n v"
    by (intro map_idI) (auto simp: split_beta)
  then show ?thesis by (simp only: usp_parse_toString)
qed

lemma handler_forwarded:
  "method_r req = ''POST'' \<Longrightarrow> k \<noteq> [] \<Longrightarrow>
   forwarded (handler (Some k) fetch req) =
     [usp_toString (usp_set (usp_parse (requestText req)) ''api_key'' k)]"
  by (simp add: handler_def Let_def split: sum.splits)

lemma handler_cong:
  assumes "method_r r1 = method_r r2"
      and "usp_set (usp_parse (requestText r1)) ''api_key'' k
             = usp_set (usp_parse (requestText r2)) ''api_key'' k"
  shows "handler (Some k) fetch r1 = handler (Some k) fetch r2"
proof -
  define G where "G = (\<lambda>m ps.
     if m \<noteq> ''POST'' then
        \<lparr>answer = newResponse ''Method Not Allowed'' 405 [], forwarded = []\<rparr>
     else if k = [] then
        \<lparr>answer = newResponse ''Missing UPTIMEROBOT_API_KEY'' 500 [], forwarded = []\<rparr>
     else (case fetch (usp_toString ps) of
             Inl err \<Rightarrow> \<lparr>answer = Inl err, forwarded = [usp_toString ps]\<rparr>
           | Inr r \<Rightarrow>
               \<lparr>answer =
                  newResponse (text_u r) (status_u r)
                    [(''Content-Type'',
                      (case content_type r of
                         None \<Rightarrow> ''application/json''
                       | Some ct \<Rightarrow> if ct = [] then ''application/json'' else ct)),
                     (''Cache-Control'', ''no-store'')],
                forwarded = [usp_toString ps]\<rparr>))"
  have g: "handler (Some k) fetch r
             = G (method_r r) (usp_set (usp_parse (requestText r)) ''api_key'' k)" for r
    by (simp add: handler_def G_def Let_def)
  show ?thesis by (simp only: g assms)
qed

lemma handler_no_key: "method_r r1 = method_r r2 \<Longrightarrow> handler None fetch r1 = handler None fetch r2"
  by (simp add: handler_def)

section \<open>Evaluation in the concrete environment\<close>

declare show_nat.simps [simp del]

lemma show_nat_digit: "n < 10 \<Longrightarrow> show_nat n = [''0123456789'' ! n]"
  by (subst show_nat.simps) simp

lemma show_nat_more:
  "\<not> n < 10 \<Longrightarrow> show_nat n = show_nat (n div 10) @ [''0123456789'' ! (n mod 10)]"
  by (subst show_nat.simps) simp

lemma utc_keys:
  "utc_format 1704153600 = ''20240102''"
  "utc_format 1704153700 = ''20240102''"
  "utc_format 1704153730 = ''20240102''"
  "utc_format 1704067200 = ''20240101''"
  "utc_format 1704070000 = ''20240101''"
  by (simp_all add: utc_format_def pad_def show_int_def show_nat_digit show_nat_more
        cong: let_weak_cong)

lemma double_vals:
  "to_double 9007199254740992 = Fin 9007199254740992"
  "to_double 9007199254740993 = Fin 9007199254740992"
proof -
  have u: "ulp 9007199254740992 = 2" "ulp 9007199254740993 = 2"
    by (simp_all add: ulp_small ulp_big)
  show "to_double 9007199254740992 = Fin 9007199254740992"
    "to_double 9007199254740993 = Fin 9007199254740992"
    by (simp_all add: to_double_def u round_even_def cong: let_weak_cong)
qed

lemmas eval_defs =
  dataProcessing_def sortData_def processMonitor_def pop_def forEachDate_def dayKey_def
  calculateTotal_def at_def emptyCounts_def addDown_def statusOf_def utc_env_def
  Let_def js_add_Fin to_double_exact double_vals
  two_days_def mon_blog_def mon_api_def mon_shop_def mon_big_def log_jan1_def log_jan2_def log_up_def
  utc_keys

lemma blog_two_days:
  "dataProcessing (utc_env None) (Some [mon_blog]) two_days =
     Inr (Some [\<lparr>id_s = 1, name_s = ''blog'', url_s = ''https://blog.example'',
                 average = Some ''97.0'',
                 daily = [\<lparr>date = 1704153600, uptime = Some ''95.5'', down = \<lparr>times_n = Fin 0, duration_n = Fin 0\<rparr>\<rparr>,
                          \<lparr>date = 1704067200, uptime = Some ''100.0'', down = \<lparr>times_n = Fin 0, duration_n = Fin 0\<rparr>\<rparr>],
                 total = \<lparr>times_n = Fin 0, duration_n = Fin 0\<rparr>, status_s = ''ok''\<rparr>])"
  by (simp add: eval_defs)

lemma api_two_days:
  "dataProcessing (utc_env None) (Some [mon_api]) two_days =
     Inr (Some [\<lparr>id_s = 2, name_s = '' api '', url_s = ''https://api.example'',
                 average = Some ''98.5'',
                 daily = [\<lparr>date = 1704153600, uptime = Some ''99.1'', down = \<lparr>times_n = Fin 1, duration_n = Fin 30\<rparr>\<rparr>,
                          \<lparr>date = 1704067200, uptime = Some ''98.0'', down = \<lparr>times_n = Fin 1, duration_n = Fin 12\<rparr>\<rparr>],
                 total = \<lparr>times_n = Fin 2, duration_n = Fin 42\<rparr>, status_s = ''down''\<rparr>])"
  by (simp add: eval_defs)

lemma three_monitors:
  "dataProcessing (utc_env None) (Some [mon_blog, mon_api, mon_shop]) two_days =
     Inr (Some
       [\<lparr>id_s = 1, name_s = ''blog'', url_s = ''https://blog.example'',
         average = Some ''97.0'',
         daily = [\<lparr>date = 1704153600, uptime = Some ''95.5'', down = \<lparr>times_n = Fin 0, duration_n = Fin 0\<rparr>\<rparr>,
                  \<lparr>date = 1704067200, uptime = Some ''100.0'', down = \<lparr>times_n = Fin 0, duration_n = Fin 0\<rparr>\<rparr>],
         total = \<lparr>times_n = Fin 0, duration_n = Fin 0\<rparr>, status_s = ''ok''\<rparr>,
        \<lparr>id_s = 2, name_s = '' api '', url_s = ''https://api.example'',
         average = Some ''98.5'',
         daily = [\<lparr>date = 1704153600, uptime = Some ''99.1'', down = \<lparr>times_n = Fin 1, duration_n = Fin 30\<rparr>\<rparr>,
                  \<lparr>date = 1704067200, uptime = Some ''98.0'', down = \<lparr>times_n = Fin 1, duration_n = Fin 12\<rparr>\<rparr>],
         total = \<lparr>times_n = Fin 2, duration_n = Fin 42\<rparr>, status_s = ''down''\<rparr>,
        \<lparr>id_s = 3, name_s = ''shop'', url_s = ''https://shop.example'',
         average = Some ''0.0'',
         daily = [\<lparr>date = 1704153600, uptime = Some ''0.0'', down = \<lparr>times_n = Fin 0, duration_n = Fin 0\<rparr>\<rparr>,
                  \<lparr>date = 1704067200, uptime = Some ''0.0'', down = \<lparr>times_n = Fin 0, duration_n = Fin 0\<rparr>\<rparr>],
         total = \<lparr>times_n = Fin 0, duration_n = Fin 0\<rparr>, status_s = ''unknown''\<rparr>])"
  by (simp add: eval_defs)

lemma api_one_day:
  "dataProcessing (utc_env None) (Some [mon_api]) [1704153600] = Inl TypeError"
  by (simp add: eval_defs)

lemma big_two_days:
  "dataProcessing (utc_env None) (Some [mon_big]) two_days =
     Inr (Some [\<lparr>id_s = 4, name_s = ''big'', url_s = ''https://big.example'',
                 average = Some ''0.0'',
                 daily = [\<lparr>date = 1704153600, uptime = Some ''0.0'',
                           down = \<lparr>times_n = Fin 1, duration_n = Fin 9007199254740992\<rparr>\<rparr>,
                          \<lparr>date = 1704067200, uptime = Some ''0.0'',
                           down = \<lparr>times_n = Fin 2, duration_n = Fin 2\<rparr>\<rparr>],
                 total = \<lparr>times_n = Fin 3, duration_n = Fin 9007199254740992\<rparr>,
                 status_s = ''down''\<rparr>])"
  by (simp add: eval_defs)

lemma sorted_three:
  "sortData (utc_env (Some ''api, blog'')) (Some [mon_shop, mon_blog, mon_api])
     = Some [mon_api, mon_blog, mon_shop]"
  "siteSort ''api, blog'' = [''blog'', ''api'']"
  "trim (friendly_name mon_shop) = ''shop''"
  "trim (friendly_name mon_api) = ''api''"
  "trim (friendly_name mon_blog) = ''blog''"
  by (simp_all add: sortData_def array_sort_def sortCompare_def priority_def siteSort_def
        trim_def is_ws_def utc_env_def mon_blog_def mon_api_def mon_shop_def)

lemma sorted_answer:
  "sortedInPlace (utc_env (Some ''blog'')) [mon_shop, mon_blog] = [mon_blog, mon_shop]"
  by (simp add: sortedInPlace_def sortData_def array_sort_def sortCompare_def priority_def
        siteSort_def trim_def is_ws_def utc_env_def mon_blog_def mon_shop_def)

lemma dates_two_days: "getDates (utc_env cfg) (world_with ans) 2 = two_days"
  "getDates (utc_env cfg) (world_with ans) 1 = [1704153600]"
  by (simp_all add: getDates_def utc_env_def world_with_def two_days_def upt_rec numeral_2_eq_2)

lemma postdata_two_days:
  "makePostdata (utc_env cfg) ''KEY'' two_days =
     \<lparr>api_key = ''KEY'', format = ''json'', logs_flag = 1, log_types = ''1-2'',
      logs_start_date = 1704067200, logs_end_date = 1704240000,
      custom_ranges = ''1704153600_1704240000-1704067200_1704153600-1704067200_1704240000''\<rparr>"
  by (simp add: makePostdata_def rangeOf_def two_days_def utc_env_def show_int_def
        show_nat_digit show_nat_more cong: let_weak_cong)

lemma body_two_days:
  "requestBody (utc_env cfg) (world_with ans) ''KEY'' 2 =
     ''api_key=KEY&format=json&logs=1&log_types=1-2&logs_start_date=1704067200&logs_end_date=1704240000&custom_uptime_ranges=1704153600_1704240000-1704067200_1704153600-1704067200_1704240000''"
  by (simp add: requestBody_def dates_two_days postdata_two_days
        form_params_def usp_append_def usp_toString_def urlencode_def encode_byte_def
        unreserved_def show_int_def show_nat_digit show_nat_more)

lemma url0: "apiUrl (utc_env cfg) = ''https://api.uptimerobot.com/v2/getMonitors''"
  by (simp add: apiUrl_def utc_env_def)

lemma ages:
  "now_check (world_with ans) - timestamp fresh_entry < 60 * 1000"
  "60 * 1000 \<le> now_check (world_with ans) - timestamp stale_entry"
  "now_check (world_with ans) - timestamp fresh_api_entry < 60 * 1000"
  by (simp_all add: world_with_def fresh_entry_def stale_entry_def fresh_api_entry_def)

declare utf8_text.simps [simp del]

lemma utf8_text_invalid: "utf8_text [CHR 0xFF] = replacement"
  by (simp add: utf8_text.simps sequence_def)

lemma request_texts:
  "requestText (post_request ''api_key=CLIENT&format=json&logs=1'') = ''api_key=CLIENT&format=json&logs=1''"
  "requestText (post_request ''api_key=u1234-other&format=json&logs=1'') = ''api_key=u1234-other&format=json&logs=1''"
  "requestText (post_request ''format=json&logs=1'') = ''format=json&logs=1''"
  "requestText (post_request ''api_key%3DEVIL%26z=1'') = ''api_key%3DEVIL%26z=1''"
  "requestText (post_request ''a=%FF'') = ''a=%FF''"
  by (simp_all add: requestText_def post_request_def strip_bom_def utf8_text_ascii)

lemma parsed_bodies:
  "usp_parse ''api_key=CLIENT&format=json&logs=1''
     = [(''api_key'', ''CLIENT''), (''format'', ''json''), (''logs'', ''1'')]"
  "usp_parse ''api_key=u1234-other&format=json&logs=1''
     = [(''api_key'', ''u1234-other''), (''format'', ''json''), (''logs'', ''1'')]"
  "usp_parse ''format=json&logs=1'' = [(''format'', ''json''), (''logs'', ''1'')]"
  "usp_parse ''api_key%3DEVIL%26z=1'' = [(''api_key=EVIL&z'', ''1'')]"
  "usp_parse ''a=%FF'' = [(''a'', replacement)]"
  by (simp_all add: usp_parse_def parse_pair_def plus_to_space_def utf8_text_ascii
        is_hex_def hex_val_def char_of_def bit_Suc_0_iff utf8_text_invalid)

lemma sent_bodies:
  "usp_toString (usp_set [(''api_key'', ''CLIENT''), (''format'', ''json''), (''logs'', ''1'')]
      ''api_key'' ''SERVER'') = ''api_key=SERVER&format=json&logs=1''"
  "usp_toString (usp_set [(''api_key'', ''u1234-other''), (''format'', ''json''), (''logs'', ''1'')]
      ''api_key'' ''SERVER'') = ''api_key=SERVER&format=json&logs=1''"
  "usp_toString (usp_set [(''format'', ''json''), (''logs'', ''1'')] ''api_key'' ''SERVER'')
     = ''format=json&logs=1&api_key=SERVER''"
  "usp_toString (usp_set [(''api_key=EVIL&z'', ''1'')] ''api_key'' ''SERVER'')
     = ''api_key%3DEVIL%26z=1&api_key=SERVER''"
  "usp_toString (usp_set [(''a'', replacement)] ''api_key'' ''SERVER'')
     = ''a=%EF%BF%BD&api_key=SERVER''"
  by (simp_all add: usp_set_def usp_toString_def urlencode_def encode_byte_def unreserved_def
        hex_digit_def replacement_def)

lemma post_method: "method_r (post_request b) = ''POST''"
  by (simp add: post_request_def)

lemma forwarded_bodies:
  "forwarded (handler (Some ''SERVER'') fetch (post_request ''api_key=CLIENT&format=json&logs=1''))
     = [''api_key=SERVER&format=json&logs=1'']"
  "forwarded (handler (Some ''SERVER'') fetch (post_request ''api_key=u1234-other&format=json&logs=1''))
     = [''api_key=SERVER&format=json&logs=1'']"
  "forwarded (handler (Some ''SERVER'') fetch (post_request ''format=json&logs=1''))
     = [''format=json&logs=1&api_key=SERVER'']"
  "forwarded (handler (Some ''SERVER'') fetch (post_request ''api_key%3DEVIL%26z=1''))
     = [''api_key%3DEVIL%26z=1&api_key=SERVER'']"
  "forwarded (handler (Some ''SERVER'') fetch (post_request ''a=%FF''))
     = [''a=%EF%BF%BD&api_key=SERVER'']"
proof -
  have m: "\<And>b. method_r (post_request b) = ''POST''" by (simp add: post_request_def)
  have k: "''SERVER'' \<noteq> []" by simp
  note f = handler_forwarded[OF m k]
  show "forwarded (handler (Some ''SERVER'') fetch (post_request ''api_key=CLIENT&format=json&logs=1''))
     = [''api_key=SERVER&format=json&logs=1'']"
    by (simp only: f request_texts parsed_bodies sent_bodies)
  show "forwarded (handler (Some ''SERVER'') fetch (post_request ''api_key=u1234-other&format=json&logs=1''))
     = [''api_key=SERVER&format=json&logs=1'']"
    by (simp only: f request_texts parsed_bodies sent_bodies)
  show "forwarded (handler (Some ''SERVER'') fetch (post_request ''format=json&logs=1''))
     = [''format=json&logs=1&api_key=SERVER'']"
    by (simp only: f request_texts parsed_bodies sent_bodies)
  show "forwarded (handler (Some ''SERVER'') fetch (post_request ''api_key%3DEVIL%26z=1''))
     = [''api_key%3DEVIL%26z=1&api_key=SERVER'']"
    by (simp only: f request_texts parsed_bodies sent_bodies)
  show "forwarded (handler (Some ''SERVER'') fetch (post_request ''a=%FF''))
     = [''a=%EF%BF%BD&api_key=SERVER'']"
    by (simp only: f request_texts parsed_bodies sent_bodies)
qed

lemma answers:
  "answer (handler (Some ''SERVER'') upstream_ok (post_request ''format=json&logs=1''))
     = Inr \<lparr>status_r = 200, body_r = ''{stat:ok}'',
            headers_r = [(''Content-Type'', ''application/json''), (''Cache-Control'', ''no-store'')]\<rparr>"
  "answer (handler (Some ''SERVER'') upstream_304 (post_request ''format=json&logs=1'')) = Inl TypeError"
  "answer (handler None upstream_ok (post_request ''format=json&logs=1''))
     = Inr \<lparr>status_r = 500, body_r = ''Missing UPTIMEROBOT_API_KEY'',
            headers_r = [(''Content-Type'', ''text/plain;charset=UTF-8'')]\<rparr>"
  "answer (handler (Some ''SERVER'') upstream_ok \<lparr>method_r = ''GET'', body_bytes = Some []\<rparr>)
     = Inr \<lparr>status_r = 405, body_r = ''Method Not Allowed'',
            headers_r = [(''Content-Type'', ''text/plain;charset=UTF-8'')]\<rparr>"
  by (simp_all add: handler_def Let_def post_request_def upstream_ok_def upstream_304_def
        newResponse_def)

section \<open>The claims\<close>

subsection \<open>C1: average and daily entries\<close>

text \<open>
  C1. Let a monitor of the data have a \<^verbatim>\<open>custom_uptime_ranges\<close> string that joins \<open>N + 1\<close>
  values with dashes (none of them containing a dash), and let \<open>N\<close> dates be requested.
  When \<^verbatim>\<open>dataProcessing\<close> returns, the site it made of this monitor has as average the
  formatted last value, and a daily array of exactly \<open>N\<close> entries, the entry at index \<open>i\<close>
  carrying the date at index \<open>i\<close> and the formatted value at index \<open>i\<close>.
\<close>

theorem dataProcessing_average_daily:
  assumes "dataProcessing e (Some ms) dates = Inr (Some sites)"
      and "m \<in> set ms"
      and "custom_uptime_ranges m = join ''-'' vs"
      and "length vs = length dates + 1"
      and "\<forall>v\<in>set vs. CHR ''-'' \<notin> set v"
  shows "\<exists>r\<in>set sites. processMonitor e dates m = Inr r \<and>
           average r = formatNumber e (Some (last vs)) \<and>
           length (daily r) = length dates \<and>
           (\<forall>i<length dates. date (daily r ! i) = dates ! i \<and>
                              uptime (daily r ! i) = formatNumber e (Some (vs ! i)))"
proof -
  from assms(1) obtain ms' where "set ms' = set ms"
    "array_map (processMonitor e dates) ms' = Inr sites"
    by (rule dataProcessing_SomeD)
  with assms(2) obtain r where r: "r \<in> set sites" "processMonitor e dates m = Inr r"
    using array_map_in by fastforce
  from assms(4) have ne: "vs \<noteq> []" by auto
  have p: "pop (split_on CHR ''-'' (custom_uptime_ranges m)) = (Some (last vs), butlast vs)"
    using pop_split_join[OF ne assms(5)] assms(3) by simp
  have a: "average r = formatNumber e (Some (last vs))"
    using processMonitor_average[OF r(2)] p by simp
  have u: "\<forall>i<length dates. date (daily r ! i) = dates ! i \<and>
                 uptime (daily r ! i) = formatNumber e (Some (vs ! i))"
  proof (intro allI impI)
    fix i assume i: "i < length dates"
    with assms(4) have "at (butlast vs) i = Some (vs ! i)"
      by (simp add: at_def nth_butlast)
    with processMonitor_daily(2,3)[OF r(2) i] p
    show "date (daily r ! i) = dates ! i \<and> uptime (daily r ! i) = formatNumber e (Some (vs ! i))"
      by simp
  qed
  from r a processMonitor_daily(1)[OF r(2)] u show ?thesis by blast
qed

text \<open>
  The example of the specification: two days and the string \<^verbatim>\<open>95.5-100.0-97.0\<close> give
  the average 97.0 and the daily entries 95.5 and 100.0.
\<close>

theorem dataProcessing_average_daily_witness:
  "\<exists>r. dataProcessing (utc_env None) (Some [mon_blog]) two_days = Inr (Some [r]) \<and>
       average r = Some ''97.0'' \<and> length (daily r) = 2 \<and>
       date (daily r ! 0) = 1704153600 \<and> uptime (daily r ! 0) = Some ''95.5'' \<and>
       date (daily r ! 1) = 1704067200 \<and> uptime (daily r ! 1) = Some ''100.0''"
proof -
  let ?vs = "[''95.5'', ''100.0'', ''97.0'']"
  have h2: "mon_blog \<in> set [mon_blog]" by simp
  have h3: "custom_uptime_ranges mon_blog = join ''-'' ?vs" by (simp add: mon_blog_def)
  have h4: "length ?vs = length two_days + 1" by (simp add: two_days_def)
  have h5: "\<forall>v\<in>set ?vs. CHR ''-'' \<notin> set v" by simp
  from dataProcessing_average_daily[OF blog_two_days h2 h3 h4 h5]
  obtain r where r: "dataProcessing (utc_env None) (Some [mon_blog]) two_days = Inr (Some [r])"
    "average r = formatNumber (utc_env None) (Some (last ?vs))"
    "length (daily r) = length two_days"
    "\<forall>i<length two_days. date (daily r ! i) = two_days ! i \<and>
        uptime (daily r ! i) = formatNumber (utc_env None) (Some (?vs ! i))"
    using blog_two_days by auto
  from r(4) have "date (daily r ! 0) = two_days ! 0 \<and>
        uptime (daily r ! 0) = formatNumber (utc_env None) (Some (?vs ! 0))"
    and "date (daily r ! 1) = two_days ! 1 \<and>
        uptime (daily r ! 1) = formatNumber (utc_env None) (Some (?vs ! 1))"
    by (simp_all add: two_days_def)
  with r(1,2,3) show ?thesis
    by (intro exI[of _ r]) (simp add: two_days_def utc_env_def)
qed

subsection \<open>C2: a down log changes exactly one bucket\<close>



subsection \<open>C5: the status codes\<close>

text \<open>
  C5. When \<^verbatim>\<open>dataProcessing\<close> returns, the site made of a monitor has the status
  \<^verbatim>\<open>ok\<close> for the status code 2, \<^verbatim>\<open>down\<close> for the code 9 and \<^verbatim>\<open>unknown\<close> for every
  other code.
\<close>

theorem dataProcessing_status:
  assumes "dataProcessing e (Some ms) dates = Inr (Some sites)"
      and "m \<in> set ms"
  shows "\<exists>r\<in>set sites. processMonitor e dates m = Inr r \<and>
           status_s r = (if status_m m = 2 then ''ok''
                         else if status_m m = 9 then ''down'' else ''unknown'')"
proof -
  from assms(1) obtain ms' where "set ms' = set ms"
    "array_map (processMonitor e dates) ms' = Inr sites"
    by (rule dataProcessing_SomeD)
  with assms(2) obtain r where r: "r \<in> set sites" "processMonitor e dates m = Inr r"
    using array_map_in by fastforce
  from processMonitor_status[OF r(2)] r show ?thesis
    by (auto simp: statusOf_def)
qed

theorem dataProcessing_status_witness:
  "(\<exists>r. processMonitor (utc_env None) two_days mon_blog = Inr r \<and> status_s r = ''ok'') \<and>
   (\<exists>r. processMonitor (utc_env None) two_days mon_api = Inr r \<and> status_s r = ''down'') \<and>
   (\<exists>r. processMonitor (utc_env None) two_days mon_shop = Inr r \<and> status_s r = ''unknown'')"
proof -
  have m: "mon_blog \<in> set [mon_blog, mon_api, mon_shop]"
    "mon_api \<in> set [mon_blog, mon_api, mon_shop]"
    "mon_shop \<in> set [mon_blog, mon_api, mon_shop]" by simp_all
  have c: "status_m mon_blog = 2" "status_m mon_api = 9" "status_m mon_shop = 0"
    by (simp_all add: mon_blog_def mon_api_def mon_shop_def)
  have "\<exists>r. processMonitor (utc_env None) two_days mon_blog = Inr r \<and> status_s r = ''ok''"
    using bex_ex[OF dataProcessing_status[OF three_monitors m(1)]] by (simp add: c)
  moreover
  have "\<exists>r. processMonitor (utc_env None) two_days mon_api = Inr r \<and> status_s r = ''down''"
    using bex_ex[OF dataProcessing_status[OF three_monitors m(2)]] by (simp add: c)
  moreover
  have "\<exists>r. processMonitor (utc_env None) two_days mon_shop = Inr r \<and> status_s r = ''unknown''"
    using bex_ex[OF dataProcessing_status[OF three_monitors m(3)]] by (simp add: c)
  ultimately show ?thesis by (intro conjI)
qed

subsection \<open>C9: when dataProcessing throws\<close>

text \<open>
  C9. \<^verbatim>\<open>dataProcessing\<close> returns exactly when the day key of every log of type 1 is the
  key of a requested date; when some monitor has a log of type 1 whose day key is none
  of them, it throws a TypeError.
\<close>

theorem dataProcessing_total_iff:
  "((\<exists>sites. dataProcessing e (Some ms) dates = Inr sites) \<longleftrightarrow>
      (\<forall>m\<in>set ms. \<forall>l\<in>set (logs m).
          type_l l = 1 \<longrightarrow> dayKey e l \<in> dayjs_format e ` set dates)) \<and>
   (dataProcessing e (Some ms) dates = Inl TypeError \<longleftrightarrow>
      (\<exists>m\<in>set ms. \<exists>l\<in>set (logs m).
          type_l l = 1 \<and> dayKey e l \<notin> dayjs_format e ` set dates))"
proof -
  obtain ms' where s: "sortData e (Some ms) = Some ms'" by (rule sortData_Some)
  have set: "set ms' = set ms" by (rule sortData_set[OF s])
  let ?ok = "\<forall>m\<in>set ms. \<forall>l\<in>set (logs m).
          type_l l = 1 \<longrightarrow> dayKey e l \<in> dayjs_format e ` set dates"
  have "(\<exists>sites. dataProcessing e (Some ms) dates = Inr sites) \<longleftrightarrow>
        (\<exists>ys. array_map (processMonitor e dates) ms' = Inr ys)"
    using s by (auto simp: dataProcessing_def split: sum.splits)
  also have "\<dots> \<longleftrightarrow> (\<forall>m\<in>set ms'. \<exists>r. processMonitor e dates m = Inr r)"
    by (rule array_map_returns_iff)
  also have "\<dots> \<longleftrightarrow> ?ok"
    by (simp add: processMonitor_returns_iff set)
  finally have a: "(\<exists>sites. dataProcessing e (Some ms) dates = Inr sites) \<longleftrightarrow> ?ok" .
  have "\<And>err. dataProcessing e (Some ms) dates = Inl err \<Longrightarrow> err = TypeError"
    using s by (auto simp: dataProcessing_def split: sum.splits
                     dest!: array_map_Inl processMonitor_Inl)
  then have "dataProcessing e (Some ms) dates = Inl TypeError \<longleftrightarrow>
             \<not> (\<exists>sites. dataProcessing e (Some ms) dates = Inr sites)"
    by (cases "dataProcessing e (Some ms) dates") auto
  with a show ?thesis by blast
qed

theorem dataProcessing_total_iff_witness:
  "dataProcessing (utc_env None) (Some [mon_api]) [1704153600] = Inl TypeError \<and>
   (\<exists>sites. dataProcessing (utc_env None) (Some [mon_api]) two_days = Inr sites)"
proof -
  have out: "\<exists>m\<in>set [mon_api]. \<exists>l\<in>set (logs m).
     type_l l = 1 \<and> dayKey (utc_env None) l \<notin> dayjs_format (utc_env None) ` set [1704153600]"
    by (simp add: mon_api_def log_jan1_def log_jan2_def log_up_def dayKey_def utc_env_def utc_keys)
  have inside: "\<forall>m\<in>set [mon_api]. \<forall>l\<in>set (logs m).
     type_l l = 1 \<longrightarrow> dayKey (utc_env None) l \<in> dayjs_format (utc_env None) ` set two_days"
    by (simp add: mon_api_def log_jan1_def log_jan2_def log_up_def dayKey_def utc_env_def utc_keys
          two_days_def)
  from dataProcessing_total_iff[of "utc_env None" "[mon_api]" "[1704153600]"] out
  have a: "dataProcessing (utc_env None) (Some [mon_api]) [1704153600] = Inl TypeError"
    by blast
  from dataProcessing_total_iff[of "utc_env None" "[mon_api]" two_days] inside
  have b: "\<exists>sites. dataProcessing (utc_env None) (Some [mon_api]) two_days = Inr sites"
    by blast
  from a b show ?thesis by blast
qed

subsection \<open>C10: the total is the sum of the buckets\<close>

text \<open>
  C10. The numbers of the fold are doubles. When \<^verbatim>\<open>dataProcessing\<close> returns and, for a
  monitor, the durations of the down logs are integers that are not negative and whose sum
  is below \<open>2 ^ 53\<close>, and there are fewer than \<open>2 ^ 53\<close> down logs, the counters and sums of
  the daily buckets of its site are integers, and the total of the site is their sum, for
  the counter and for the duration.
\<close>

theorem dataProcessing_total_sums:
  assumes "dataProcessing e (Some ms) dates = Inr (Some sites)"
      and "m \<in> set ms"
      and "\<forall>l\<in>set (logs m). type_l l = 1 \<longrightarrow> 0 \<le> duration l"
      and "sum_list (map duration (filter (\<lambda>l. type_l l = 1) (logs m))) < 2 ^ 53"
      and "int (length (filter (\<lambda>l. type_l l = 1) (logs m))) < 2 ^ 53"
  shows "\<exists>r\<in>set sites. processMonitor e dates m = Inr r \<and>
           (\<exists>ts ds. map (\<lambda>b. times_n (down b)) (daily r) = map Fin ts \<and>
                    map (\<lambda>b. duration_n (down b)) (daily r) = map Fin ds \<and>
                    times_n (total r) = Fin (sum_list ts) \<and>
                    duration_n (total r) = Fin (sum_list ds))"
proof -
  let ?rg = "snd (pop (split_on CHR ''-'' (custom_uptime_ranges m)))"
  let ?d0 = "snd (forEachDate e ?rg dates)"
  let ?z = "replicate (length dates) (0::int)"
  from assms(1) obtain ms' where ms': "set ms' = set ms"
    "array_map (processMonitor e dates) ms' = Inr sites"
    by (rule dataProcessing_SomeD)
  with assms(2) array_map_in[of "processMonitor e dates" ms' sites m]
  obtain r where r: "r \<in> set sites" "processMonitor e dates m = Inr r" by auto
  from r(2) obtain tot dly where
    red: "reduce (calculateTotal e (fst (forEachDate e ?rg dates))) (emptyCounts, ?d0) (logs m)
            = Inr (tot, dly)"
    and rr: "daily r = dly" "total r = tot"
    by (auto elim!: processMonitor_Inr)
  have m1: "map (\<lambda>b. times_n (down b)) ?d0 = map Fin ?z"
    by (rule nth_equalityI) (simp_all add: forEachDate_length forEachDate_down emptyCounts_def)
  have m2: "map (\<lambda>b. duration_n (down b)) ?d0 = map Fin ?z"
    by (rule nth_equalityI) (simp_all add: forEachDate_length forEachDate_down emptyCounts_def)
  have "\<exists>ts ds. map (\<lambda>b. times_n (down b)) dly = map Fin ts \<and>
                map (\<lambda>b. duration_n (down b)) dly = map Fin ds \<and>
                times_n tot = Fin (sum_list ts) \<and> duration_n tot = Fin (sum_list ds)"
  proof (rule reduce_exact[OF red m1 m2])
    show "times_n emptyCounts = Fin (sum_list ?z)"
      by (simp add: emptyCounts_def sum_list_replicate)
    show "duration_n emptyCounts = Fin (sum_list ?z)"
      by (simp add: emptyCounts_def sum_list_replicate)
    show "\<forall>t\<in>set ?z. 0 \<le> t" by simp
    show "\<forall>d\<in>set ?z. 0 \<le> d" by simp
    show "\<forall>l\<in>set (logs m). type_l l = 1 \<longrightarrow> 0 \<le> duration l" by (rule assms(3))
    show "sum_list ?z + int (length (filter (\<lambda>l. type_l l = 1) (logs m))) < 2 ^ 53"
      using assms(5) by (simp add: sum_list_replicate)
    show "sum_list ?z + sum_list (map duration (filter (\<lambda>l. type_l l = 1) (logs m))) < 2 ^ 53"
      using assms(4) by (simp add: sum_list_replicate)
  qed
  with r rr show ?thesis by blast
qed

theorem dataProcessing_total_sums_witness:
  "\<exists>r. dataProcessing (utc_env None) (Some [mon_api]) two_days = Inr (Some [r]) \<and>
       map (\<lambda>b. times_n (down b)) (daily r) = map Fin [1, 1] \<and>
       map (\<lambda>b. duration_n (down b)) (daily r) = map Fin [30, 12] \<and>
       times_n (total r) = Fin (sum_list [1, 1]) \<and>
       duration_n (total r) = Fin (sum_list [30, 12]) \<and>
       sum_list (map duration (filter (\<lambda>l. type_l l = 1) (logs mon_api))) = 42"
proof -
  have mem: "mon_api \<in> set [mon_api]" by simp
  have h: "\<forall>l\<in>set (logs mon_api). type_l l = 1 \<longrightarrow> 0 \<le> duration l"
    "sum_list (map duration (filter (\<lambda>l. type_l l = 1) (logs mon_api))) = 42"
    "int (length (filter (\<lambda>l. type_l l = 1) (logs mon_api))) = 2"
    by (simp_all add: mon_api_def log_jan1_def log_jan2_def log_up_def)
  have b: "sum_list (map duration (filter (\<lambda>l. type_l l = 1) (logs mon_api))) < 2 ^ 53"
    "int (length (filter (\<lambda>l. type_l l = 1) (logs mon_api))) < 2 ^ 53"
    by (simp_all only: h) simp_all
  let ?r = "\<lparr>id_s = 2, name_s = '' api '', url_s = ''https://api.example'',
             average = Some ''98.5'',
             daily = [\<lparr>date = 1704153600, uptime = Some ''99.1'',
                       down = \<lparr>times_n = Fin 1, duration_n = Fin 30\<rparr>\<rparr>,
                      \<lparr>date = 1704067200 :: int, uptime = Some ''98.0'',
                       down = \<lparr>times_n = Fin 1, duration_n = Fin 12\<rparr>\<rparr>],
             total = \<lparr>times_n = Fin 2, duration_n = Fin 42\<rparr>, status_s = ''down''\<rparr>"
  from dataProcessing_total_sums[OF api_two_days mem h(1) b]
  obtain r ts ds where r: "r \<in> set [?r]"
    and s: "map (\<lambda>b. times_n (down b)) (daily r) = map Fin ts"
       "map (\<lambda>b. duration_n (down b)) (daily r) = map Fin ds"
       "times_n (total r) = Fin (sum_list ts)" "duration_n (total r) = Fin (sum_list ds)"
    by blast
  from r have rr: "r = ?r" by simp
  from s(1,2) have t: "ts = [1, 1]" "ds = [30, 12]" by (auto simp: rr)
  have "dataProcessing (utc_env None) (Some [mon_api]) two_days = Inr (Some [r])"
    by (simp only: rr api_two_days)
  with s t h(2) show ?thesis by blast
qed

text \<open>
  The code at a monitor with down logs of \<open>2 ^ 53\<close>, 1 and 1 seconds: the total stays
  \<open>2 ^ 53\<close>, the buckets hold \<open>2 ^ 53\<close> and 2.
\<close>

theorem total_rounds_counterexample:
  "\<exists>r. dataProcessing (utc_env None) (Some [mon_big]) two_days = Inr (Some [r]) \<and>
       map (\<lambda>b. duration_n (down b)) (daily r) = map Fin [9007199254740992, 2] \<and>
       duration_n (total r) = Fin 9007199254740992 \<and>
       duration_n (total r) \<noteq> Fin (sum_list [9007199254740992, 2])"
  by (simp add: big_two_days)

subsection \<open>C6: the priority sort\<close>

text \<open>
  C6, as the code has it. With a configured priority list, the comparator gives the
  priority 0 to exactly the sites whose trimmed name is not in the list and a priority of
  at least 1 to the sites whose trimmed name is in it; the sort permutes the sites into
  descending priority, so that behind a site that is not in the list only such sites
  follow: no unmatched site is placed ahead of a matched one.
\<close>

theorem priority_sort_order:
  assumes "VITE_SITE_SORT e = Some s"
      and "sortData e (Some ms) = Some out"
  shows "(\<forall>v. priority (siteSort s) v = 0 \<longleftrightarrow> trim (friendly_name v) \<notin> set (siteSort s)) \<and>
         (\<forall>v. trim (friendly_name v) \<in> set (siteSort s) \<longleftrightarrow> 1 \<le> priority (siteSort s) v) \<and>
         mset out = mset ms \<and>
         sorted_wrt (\<lambda>a b. priority (siteSort s) b \<le> priority (siteSort s) a) out \<and>
         (\<forall>i j. i < j \<and> j < length out \<and>
                 trim (friendly_name (out ! i)) \<notin> set (siteSort s) \<longrightarrow>
                 trim (friendly_name (out ! j)) \<notin> set (siteSort s))"
proof -
  from assms have out: "out = array_sort (sortCompare (siteSort s)) ms"
    by (simp add: sortData_def)
  show ?thesis
    unfolding out
    using unmatched_behind[of _ _ "siteSort s" ms]
    by (auto simp: priority_unmatched priority_matched[symmetric] mset_array_sort sorted_priority)
qed

theorem priority_sort_order_witness:
  "sortData (utc_env (Some ''api, blog'')) (Some [mon_shop, mon_blog, mon_api])
     = Some [mon_api, mon_blog, mon_shop] \<and>
   priority (siteSort ''api, blog'') mon_shop = 0 \<and>
   1 \<le> priority (siteSort ''api, blog'') mon_blog \<and>
   mset [mon_api, mon_blog, mon_shop] = mset [mon_shop, mon_blog, mon_api]"
proof -
  have h1: "VITE_SITE_SORT (utc_env (Some ''api, blog'')) = Some ''api, blog''"
    by (simp add: utc_env_def)
  note t = priority_sort_order[OF h1 sorted_three(1)]
  have "trim (friendly_name mon_shop) \<notin> set (siteSort ''api, blog'')"
    by (simp add: sorted_three)
  with t have a: "priority (siteSort ''api, blog'') mon_shop = 0" by blast
  have "trim (friendly_name mon_blog) \<in> set (siteSort ''api, blog'')"
    by (simp add: sorted_three)
  with t have b: "1 \<le> priority (siteSort ''api, blog'') mon_blog" by blast
  from t have c: "mset [mon_api, mon_blog, mon_shop] = mset [mon_shop, mon_blog, mon_api]"
    by blast
  from sorted_three(1) a b c show ?thesis by blast
qed

text \<open>
  The claim C6 says that for some input an unmatched site ends up ahead of a site whose
  trimmed name is the entry of lowest priority (the last name of the configuration, the
  head of the reversed list). There is no such configuration and input.
\<close>

theorem unmatched_never_ahead:
  "\<not> (\<exists>(e :: (int, string option) env) s ms out i j.
         VITE_SITE_SORT e = Some s \<and> sortData e (Some ms) = Some out \<and>
         i < j \<and> j < length out \<and>
         trim (friendly_name (out ! i)) \<notin> set (siteSort s) \<and>
         trim (friendly_name (out ! j)) = hd (siteSort s))"
proof
  assume "\<exists>(e :: (int, string option) env) s ms out i j.
         VITE_SITE_SORT e = Some s \<and> sortData e (Some ms) = Some out \<and>
         i < j \<and> j < length out \<and>
         trim (friendly_name (out ! i)) \<notin> set (siteSort s) \<and>
         trim (friendly_name (out ! j)) = hd (siteSort s)"
  then obtain e :: "(int, string option) env" and s ms out i j where
    a: "VITE_SITE_SORT e = Some s" "sortData e (Some ms) = Some out"
       "i < j" "j < length out"
       "trim (friendly_name (out ! i)) \<notin> set (siteSort s)"
       "trim (friendly_name (out ! j)) = hd (siteSort s)"
    by blast
  from a(1,2) have out: "out = array_sort (sortCompare (siteSort s)) ms"
    by (simp add: sortData_def)
  have "siteSort s \<noteq> []" by (simp add: siteSort_def split_on_ne)
  then have "hd (siteSort s) \<in> set (siteSort s)" by simp
  with a(6) have "trim (friendly_name (out ! j)) \<in> set (siteSort s)" by simp
  moreover from unmatched_behind[of i j "siteSort s" ms] a(3,4,5)
  have "trim (friendly_name (out ! j)) \<notin> set (siteSort s)" by (simp add: out)
  ultimately show False by simp
qed

subsection \<open>C4: the rollup\<close>

text \<open>
  C4, as the code has it. For a list of sites, when the document has the favicon link: the
  state is \<^verbatim>\<open>normal\<close> if and only if every site is \<^verbatim>\<open>ok\<close> (as they all are in the empty
  list); it is \<^verbatim>\<open>allError\<close> if and only if the list is not empty and no site is \<^verbatim>\<open>ok\<close>;
  and it is \<^verbatim>\<open>error\<close> if and only if some site is \<^verbatim>\<open>ok\<close> and some site is not.
\<close>

theorem changeSite_rollup:
  assumes "changeSite (Some sites) (Some href, st) = (fav', st')"
  shows "(siteState st' = ''normal'' \<longleftrightarrow> (\<forall>s\<in>set sites. status_s s = ''ok'')) \<and>
         (siteState st' = ''allError'' \<longleftrightarrow>
            sites \<noteq> [] \<and> (\<forall>s\<in>set sites. status_s s \<noteq> ''ok'')) \<and>
         (siteState st' = ''error'' \<longleftrightarrow>
            (\<exists>s\<in>set sites. status_s s = ''ok'') \<and> (\<exists>s\<in>set sites. status_s s \<noteq> ''ok'')) \<and>
         siteState st' \<in> {''normal'', ''error'', ''allError''}"
proof -
  from assms have "st' = snd (changeSite (Some sites) (Some href, st))" by simp
  then have s: "siteState st' =
     (if \<forall>s\<in>set sites. status_s s = ''ok'' then ''normal''
      else if \<exists>s\<in>set sites. status_s s = ''ok'' then ''error'' else ''allError'')"
    by (simp only: changeSite_state)
  show ?thesis
  proof (cases "\<forall>s\<in>set sites. status_s s = ''ok''")
    case True
    then have "sites = [] \<or> (\<exists>s\<in>set sites. status_s s = ''ok'')"
      by (cases sites) auto
    with True s show ?thesis by auto
  next
    case False
    then have "sites \<noteq> []" by auto
    with False s show ?thesis by auto
  qed
qed

theorem changeSite_rollup_witness:
  "siteState (snd (changeSite (Some [site_with ''ok'', site_with ''down''])
                    (Some ''./images/favicon.ico'', status0))) = ''error'' \<and>
   siteState (snd (changeSite (Some [site_with ''ok'', site_with ''ok''])
                    (Some ''./images/favicon.ico'', status0))) = ''normal'' \<and>
   siteState (snd (changeSite (Some [site_with ''down'', site_with ''unknown''])
                    (Some ''./images/favicon.ico'', status0))) = ''allError''"
proof -
  let ?run = "\<lambda>sites. changeSite (Some sites) (Some ''./images/favicon.ico'', status0)"
  have p: "\<And>sites. ?run sites = (fst (?run sites), snd (?run sites))" by simp
  have "(\<exists>s\<in>set [site_with ''ok'', site_with ''down'']. status_s s = ''ok'') \<and>
        (\<exists>s\<in>set [site_with ''ok'', site_with ''down'']. status_s s \<noteq> ''ok'')"
    by (simp add: site_with_def)
  with changeSite_rollup[OF p[of "[site_with ''ok'', site_with ''down'']"]]
  have a: "siteState (snd (?run [site_with ''ok'', site_with ''down''])) = ''error''" by blast
  have "\<forall>s\<in>set [site_with ''ok'', site_with ''ok'']. status_s s = ''ok''"
    by (simp add: site_with_def)
  with changeSite_rollup[OF p[of "[site_with ''ok'', site_with ''ok'']"]]
  have b: "siteState (snd (?run [site_with ''ok'', site_with ''ok''])) = ''normal''" by blast
  have "[site_with ''down'', site_with ''unknown''] \<noteq> [] \<and>
        (\<forall>s\<in>set [site_with ''down'', site_with ''unknown'']. status_s s \<noteq> ''ok'')"
    by (simp add: site_with_def)
  with changeSite_rollup[OF p[of "[site_with ''down'', site_with ''unknown'']"]]
  have c: "siteState (snd (?run [site_with ''down'', site_with ''unknown''])) = ''allError''"
    by blast
  from a b c show ?thesis by blast
qed

text \<open>
  The claim C4 says that the state is \<^verbatim>\<open>allError\<close> if and only if no site is \<^verbatim>\<open>ok\<close>. In
  the empty list no site is \<^verbatim>\<open>ok\<close>, and the state is \<^verbatim>\<open>normal\<close>.
\<close>

theorem changeSite_empty_counterexample:
  "\<not> (siteState (snd (changeSite (Some ([] :: (int, string option) site list))
                       (Some ''./images/favicon.ico'', \<lparr>siteState = ''loading'', siteOverview = None\<rparr>)))
        = ''allError'' \<longleftrightarrow>
      \<not> (\<exists>s\<in>set ([] :: (int, string option) site list). status_s s = ''ok''))"
  by (simp add: changeSite_state)

subsection \<open>C3: the cache gate\<close>

text \<open>
  C3, as the code has it. For a call with at least one day: when the cache holds an entry
  whose age is below 60 seconds, no request is sent and the cached monitors are processed
  again; the processed list is what the promise resolves to, unless the processing throws,
  in which case the promise never settles. When the cache is empty or the age of its entry
  is 60 seconds or more, exactly one request is sent, to the API URL.
\<close>

theorem getSiteData_cache_gate:
  assumes "0 < days"
  shows "(\<forall>entry. cache = Some entry \<and> now_check w - timestamp entry < 60 * 1000 \<longrightarrow>
            requests (getSiteData e w apikey days cache st) = [] \<and>
            outcome (getSiteData e w apikey days cache st) =
              (case dataProcessing e (Some (data_c entry)) (getDates e w days) of
                 Inl err \<Rightarrow> Pending | Inr processed \<Rightarrow> Resolved processed)) \<and>
         (cache = None \<or> (\<exists>entry. cache = Some entry \<and> 60 * 1000 \<le> now_check w - timestamp entry) \<longrightarrow>
            requests (getSiteData e w apikey days cache st) =
              [(apiUrl e, requestBody e w apikey days)])"
proof (intro conjI allI impI)
  fix entry
  assume a: "cache = Some entry \<and> now_check w - timestamp entry < 60 * 1000"
  then have "getSiteData e w apikey days cache st =
           fromCache e w (getDates e w days) entry (changeSiteState ''loading'' st)"
    using assms by (simp add: getSiteData_hit)
  then show "requests (getSiteData e w apikey days cache st) = []"
    and "outcome (getSiteData e w apikey days cache st) =
              (case dataProcessing e (Some (data_c entry)) (getDates e w days) of
                 Inl err \<Rightarrow> Pending | Inr processed \<Rightarrow> Resolved processed)"
    by (simp_all add: fromCache_quiet fromCache_outcome)
next
  assume m: "cache = None \<or> (\<exists>entry. cache = Some entry \<and> 60 * 1000 \<le> now_check w - timestamp entry)"
  show "requests (getSiteData e w apikey days cache st) =
              [(apiUrl e, requestBody e w apikey days)]"
    by (simp add: getSiteData_miss[OF assms m] fromNetwork_requests requestBody_def)
qed

theorem getSiteData_cache_gate_witness:
  "requests (getSiteData (utc_env None) (world_with answer_ok) ''KEY'' 2 (Some fresh_entry) status0) = [] \<and>
   outcome (getSiteData (utc_env None) (world_with answer_ok) ''KEY'' 2 (Some fresh_entry) status0) =
     Resolved (Some [\<lparr>id_s = 1, name_s = ''blog'', url_s = ''https://blog.example'',
                 average = Some ''97.0'',
                 daily = [\<lparr>date = 1704153600, uptime = Some ''95.5'', down = \<lparr>times_n = Fin 0, duration_n = Fin 0\<rparr>\<rparr>,
                          \<lparr>date = 1704067200, uptime = Some ''100.0'', down = \<lparr>times_n = Fin 0, duration_n = Fin 0\<rparr>\<rparr>],
                 total = \<lparr>times_n = Fin 0, duration_n = Fin 0\<rparr>, status_s = ''ok''\<rparr>]) \<and>
   requests (getSiteData (utc_env None) (world_with answer_ok) ''KEY'' 2 (Some stale_entry) status0) =
     [(''https://api.uptimerobot.com/v2/getMonitors'',
       ''api_key=KEY&format=json&logs=1&log_types=1-2&logs_start_date=1704067200&logs_end_date=1704240000&custom_uptime_ranges=1704153600_1704240000-1704067200_1704153600-1704067200_1704240000'')] \<and>
   requests (getSiteData (utc_env None) (world_with answer_ok) ''KEY'' 2 None status0) =
     [(''https://api.uptimerobot.com/v2/getMonitors'',
       ''api_key=KEY&format=json&logs=1&log_types=1-2&logs_start_date=1704067200&logs_end_date=1704240000&custom_uptime_ranges=1704153600_1704240000-1704067200_1704153600-1704067200_1704240000'')]"
proof -
  let ?e = "utc_env None" and ?w = "world_with answer_ok"
  have d: "(0::int) < 2" by simp
  note gate = getSiteData_cache_gate[OF d, of _ ?w ?e "''KEY''" status0]
  have f: "data_c fresh_entry = [mon_blog]" by (simp add: fresh_entry_def)
  from gate[of "Some fresh_entry"] ages(1)[of answer_ok]
  have a: "requests (getSiteData ?e ?w ''KEY'' 2 (Some fresh_entry) status0) = [] \<and>
           outcome (getSiteData ?e ?w ''KEY'' 2 (Some fresh_entry) status0) =
              (case dataProcessing ?e (Some (data_c fresh_entry)) (getDates ?e ?w 2) of
                 Inl err \<Rightarrow> Pending | Inr processed \<Rightarrow> Resolved processed)"
    by blast
  from gate[of "Some stale_entry"] ages(2)[of answer_ok]
  have b: "requests (getSiteData ?e ?w ''KEY'' 2 (Some stale_entry) status0) =
             [(apiUrl ?e, requestBody ?e ?w ''KEY'' 2)]"
    by blast
  from gate[of None]
  have c: "requests (getSiteData ?e ?w ''KEY'' 2 None status0) =
             [(apiUrl ?e, requestBody ?e ?w ''KEY'' 2)]"
    by blast
  from a b c show ?thesis
    by (simp add: f dates_two_days blog_two_days url0 body_two_days)
qed

text \<open>
  The claim C3 speaks of every call. With \<^verbatim>\<open>days = 0\<close> and an empty cache no request is
  sent: the call throws a TypeError while it computes the date range. And with a fresh
  entry whose monitor has a down log outside the requested day, nothing is returned.
\<close>

theorem getSiteData_gate_counterexample:
  "requests (getSiteData (utc_env None) (world_with answer_ok) ''KEY'' 0 None status0) = [] \<and>
   outcome (getSiteData (utc_env None) (world_with answer_ok) ''KEY'' 0 None status0)
     = Rejected TypeError \<and>
   outcome (getSiteData (utc_env None) (world_with answer_ok) ''KEY'' 1 (Some fresh_api_entry) status0)
     = Pending"
proof -
  have "outcome (getSiteData (utc_env None) (world_with answer_ok) ''KEY'' 1 (Some fresh_api_entry) status0)
     = Pending"
    using ages(3)[of answer_ok]
    by (simp add: getSiteData_hit[where entry = fresh_api_entry] fromCache_outcome dates_two_days
          fresh_api_entry_def api_one_day)
  then show ?thesis by (simp add: getSiteData_no_dates)
qed

subsection \<open>C8: when the cache is written\<close>

text \<open>
  C8. On the network path (at least one day, and no entry or one of 60 seconds or more):
  when the request fails in transport or the answer has \<^verbatim>\<open>stat\<close> \<^verbatim>\<open>fail\<close>, the promise is
  rejected with that error and the cache is as it was, nothing written; when the answer
  carries a monitor list, \<^verbatim>\<open>changeSiteData\<close> is called once, with that list and the time
  of the clock, whatever the cache held, and the slot then holds that array (a permutation
  of the list, the list itself without a configured sort) with that time. In every
  call, a write to the cache implies that a request was sent and was answered with a
  monitor list and without \<^verbatim>\<open>stat\<close> \<^verbatim>\<open>fail\<close>.
\<close>

theorem getSiteData_cache_update:
  "(0 < days \<and>
    (cache = None \<or> (\<exists>entry. cache = Some entry \<and> 60 * 1000 \<le> now_check w - timestamp entry)) \<longrightarrow>
      (\<forall>err. axios_post w (apiUrl e) (requestBody e w apikey days) = Inl err \<longrightarrow>
         outcome (getSiteData e w apikey days cache st) = Rejected err \<and>
         cache_after (getSiteData e w apikey days cache st) = cache \<and>
         cache_writes (getSiteData e w apikey days cache st) = []) \<and>
      (\<forall>d. axios_post w (apiUrl e) (requestBody e w apikey days) = Inr (Some d) \<and> stat d = ''fail'' \<longrightarrow>
         outcome (getSiteData e w apikey days cache st) = Rejected (ApiError (apiErrorMessage d)) \<and>
         cache_after (getSiteData e w apikey days cache st) = cache \<and>
         cache_writes (getSiteData e w apikey days cache st) = []) \<and>
      (\<forall>d ms. axios_post w (apiUrl e) (requestBody e w apikey days) = Inr (Some d) \<and>
          stat d \<noteq> ''fail'' \<and> monitors d = Some ms \<longrightarrow>
         cache_writes (getSiteData e w apikey days cache st) =
           [\<lparr>data_c = ms, timestamp = now_store w\<rparr>] \<and>
         cache_after (getSiteData e w apikey days cache st) =
           Some \<lparr>data_c = sortedInPlace e ms, timestamp = now_store w\<rparr> \<and>
         mset (sortedInPlace e ms) = mset ms \<and>
         (VITE_SITE_SORT e = None \<longrightarrow> sortedInPlace e ms = ms))) \<and>
   (cache_writes (getSiteData e w apikey days cache st) \<noteq> [] \<longrightarrow>
      (\<exists>d ms. axios_post w (apiUrl e) (requestBody e w apikey days) = Inr (Some d) \<and>
         stat d \<noteq> ''fail'' \<and> monitors d = Some ms \<and>
         requests (getSiteData e w apikey days cache st) = [(apiUrl e, requestBody e w apikey days)]))"
proof (intro conjI impI)
  assume a: "0 < days \<and>
    (cache = None \<or> (\<exists>entry. cache = Some entry \<and> 60 * 1000 \<le> now_check w - timestamp entry))"
  let ?st = "changeSiteState ''loading'' st"
  let ?pd = "makePostdata e apikey (getDates e w days)"
  from a have g: "getSiteData e w apikey days cache st =
      fromNetwork e w apikey (getDates e w days) cache ?st"
    by (simp add: getSiteData_miss)
  have res: "fst (getMonitorsData e w ?pd ?st) =
     (case axios_post w (apiUrl e) (requestBody e w apikey days) of
        Inl err \<Rightarrow> Inl err
      | Inr None \<Rightarrow> Inr None
      | Inr (Some d) \<Rightarrow> if stat d = ''fail'' then Inl (ApiError (apiErrorMessage d)) else Inr (Some d))"
    by (simp add: getMonitorsData_result requestBody_def)
  show "\<forall>err. axios_post w (apiUrl e) (requestBody e w apikey days) = Inl err \<longrightarrow>
         outcome (getSiteData e w apikey days cache st) = Rejected err \<and>
         cache_after (getSiteData e w apikey days cache st) = cache \<and>
         cache_writes (getSiteData e w apikey days cache st) = []"
  proof (intro allI impI)
    fix err assume "axios_post w (apiUrl e) (requestBody e w apikey days) = Inl err"
    with res have "fst (getMonitorsData e w ?pd ?st) = Inl err" by simp
    from fromNetwork_Inl[OF this, of cache]
    show "outcome (getSiteData e w apikey days cache st) = Rejected err \<and>
         cache_after (getSiteData e w apikey days cache st) = cache \<and>
         cache_writes (getSiteData e w apikey days cache st) = []"
      by (simp add: g)
  qed
  show "\<forall>d. axios_post w (apiUrl e) (requestBody e w apikey days) = Inr (Some d) \<and> stat d = ''fail'' \<longrightarrow>
         outcome (getSiteData e w apikey days cache st) = Rejected (ApiError (apiErrorMessage d)) \<and>
         cache_after (getSiteData e w apikey days cache st) = cache \<and>
         cache_writes (getSiteData e w apikey days cache st) = []"
  proof (intro allI impI)
    fix d assume "axios_post w (apiUrl e) (requestBody e w apikey days) = Inr (Some d) \<and> stat d = ''fail''"
    with res have "fst (getMonitorsData e w ?pd ?st) = Inl (ApiError (apiErrorMessage d))" by simp
    from fromNetwork_Inl[OF this, of cache]
    show "outcome (getSiteData e w apikey days cache st) = Rejected (ApiError (apiErrorMessage d)) \<and>
         cache_after (getSiteData e w apikey days cache st) = cache \<and>
         cache_writes (getSiteData e w apikey days cache st) = []"
      by (simp add: g)
  qed
  show "\<forall>d ms. axios_post w (apiUrl e) (requestBody e w apikey days) = Inr (Some d) \<and>
          stat d \<noteq> ''fail'' \<and> monitors d = Some ms \<longrightarrow>
         cache_writes (getSiteData e w apikey days cache st) =
           [\<lparr>data_c = ms, timestamp = now_store w\<rparr>] \<and>
         cache_after (getSiteData e w apikey days cache st) =
           Some \<lparr>data_c = sortedInPlace e ms, timestamp = now_store w\<rparr> \<and>
         mset (sortedInPlace e ms) = mset ms \<and>
         (VITE_SITE_SORT e = None \<longrightarrow> sortedInPlace e ms = ms)"
  proof (intro allI impI)
    fix d ms
    assume s: "axios_post w (apiUrl e) (requestBody e w apikey days) = Inr (Some d) \<and>
          stat d \<noteq> ''fail'' \<and> monitors d = Some ms"
    with res have r: "fst (getMonitorsData e w ?pd ?st) = Inr (Some d)" by simp
    from s have m: "monitors d = Some ms" by simp
    from fromNetwork_stored[OF r m, of cache]
    show "cache_writes (getSiteData e w apikey days cache st) =
           [\<lparr>data_c = ms, timestamp = now_store w\<rparr>] \<and>
         cache_after (getSiteData e w apikey days cache st) =
           Some \<lparr>data_c = sortedInPlace e ms, timestamp = now_store w\<rparr> \<and>
         mset (sortedInPlace e ms) = mset ms \<and>
         (VITE_SITE_SORT e = None \<longrightarrow> sortedInPlace e ms = ms)"
      by (simp add: g sortedInPlace_mset sortedInPlace_unsorted)
  qed
next
  assume w: "cache_writes (getSiteData e w apikey days cache st) \<noteq> []"
  let ?st = "changeSiteState ''loading'' st"
  let ?dates = "getDates e w days"
  let ?pd = "makePostdata e apikey ?dates"
  have d: "0 < days"
  proof (rule ccontr)
    assume "\<not> 0 < days"
    then have "days \<le> 0" by simp
    from getSiteData_no_dates[OF this, of e w apikey cache st] w show False by simp
  qed
  have g: "getSiteData e w apikey days cache st = fromNetwork e w apikey ?dates cache ?st"
  proof (cases cache)
    case None
    with d show ?thesis by (simp add: getSiteData_miss)
  next
    case (Some entry)
    show ?thesis
    proof (cases "now_check w - timestamp entry < 60 * 1000")
      case True
      from getSiteData_hit[OF d Some True, of e apikey st] w fromCache_quiet[of e w ?dates entry ?st]
      show ?thesis by simp
    next
      case False
      with d Some show ?thesis by (simp add: getSiteData_miss)
    qed
  qed
  from w g fromNetwork_writes[of e w apikey ?dates cache ?st]
  obtain dd ms where r: "fst (getMonitorsData e w ?pd ?st) = Inr (Some dd)" "monitors dd = Some ms"
    by auto
  from r(1) have "axios_post w (apiUrl e) (requestBody e w apikey days) = Inr (Some dd) \<and>
         stat dd \<noteq> ''fail''"
    by (auto simp: getMonitorsData_result requestBody_def split: sum.splits option.splits if_splits)
  with r(2) g show "\<exists>d ms. axios_post w (apiUrl e) (requestBody e w apikey days) = Inr (Some d) \<and>
         stat d \<noteq> ''fail'' \<and> monitors d = Some ms \<and>
         requests (getSiteData e w apikey days cache st) = [(apiUrl e, requestBody e w apikey days)]"
    by (auto simp: fromNetwork_requests requestBody_def)
qed

theorem getSiteData_cache_update_witness:
  "outcome (getSiteData (utc_env (Some ''blog'')) (world_with answer_down) ''KEY'' 2 (Some stale_entry) status0)
     = Rejected (TransportError ''Network Error'') \<and>
   cache_after (getSiteData (utc_env (Some ''blog'')) (world_with answer_down) ''KEY'' 2 (Some stale_entry) status0)
     = Some stale_entry \<and>
   outcome (getSiteData (utc_env (Some ''blog'')) (world_with answer_fail) ''KEY'' 2 (Some stale_entry) status0)
     = Rejected (ApiError ''API Error: api_key not found'') \<and>
   cache_after (getSiteData (utc_env (Some ''blog'')) (world_with answer_fail) ''KEY'' 2 (Some stale_entry) status0)
     = Some stale_entry \<and>
   cache_writes (getSiteData (utc_env (Some ''blog'')) (world_with answer_ok) ''KEY'' 2 (Some stale_entry) status0)
     = [\<lparr>data_c = [mon_shop, mon_blog], timestamp = 1704190000150\<rparr>] \<and>
   cache_after (getSiteData (utc_env (Some ''blog'')) (world_with answer_ok) ''KEY'' 2 (Some stale_entry) status0)
     = Some \<lparr>data_c = [mon_blog, mon_shop], timestamp = 1704190000150\<rparr>"
proof -
  let ?e = "utc_env (Some ''blog'')"
  have pre: "\<And>ans. (0::int) < 2 \<and> (Some stale_entry = None \<or>
      (\<exists>entry. Some stale_entry = Some entry \<and>
          60 * 1000 \<le> now_check (world_with ans) - timestamp entry))"
    using ages(2) by simp
  note upd = getSiteData_cache_update[where days = 2 and cache = "Some stale_entry" and e = ?e
      and apikey = "''KEY''" and st = status0]
  have p: "\<And>ans u b. axios_post (world_with ans) u b = ans" "\<And>ans. now_store (world_with ans) = 1704190000150"
    by (simp_all add: world_with_def)
  from upd[where w = "world_with answer_down"] pre[of answer_down]
  have a: "outcome (getSiteData ?e (world_with answer_down) ''KEY'' 2 (Some stale_entry) status0)
             = Rejected (TransportError ''Network Error'') \<and>
           cache_after (getSiteData ?e (world_with answer_down) ''KEY'' 2 (Some stale_entry) status0)
             = Some stale_entry"
    by (simp add: p answer_down_def)
  from upd[where w = "world_with answer_fail"] pre[of answer_fail]
  have b: "outcome (getSiteData ?e (world_with answer_fail) ''KEY'' 2 (Some stale_entry) status0)
             = Rejected (ApiError ''API Error: api_key not found'') \<and>
           cache_after (getSiteData ?e (world_with answer_fail) ''KEY'' 2 (Some stale_entry) status0)
             = Some stale_entry"
    by (simp add: p answer_fail_def apiErrorMessage_def)
  from upd[where w = "world_with answer_ok"] pre[of answer_ok]
  have c: "cache_writes (getSiteData ?e (world_with answer_ok) ''KEY'' 2 (Some stale_entry) status0)
             = [\<lparr>data_c = [mon_shop, mon_blog], timestamp = 1704190000150\<rparr>] \<and>
           cache_after (getSiteData ?e (world_with answer_ok) ''KEY'' 2 (Some stale_entry) status0)
             = Some \<lparr>data_c = [mon_blog, mon_shop], timestamp = 1704190000150\<rparr>"
    by (simp add: p answer_ok_def sorted_answer)
  from a b c show ?thesis by blast
qed

subsection \<open>C7: the proxy overrides the key\<close>

text \<open>
  C7. For a POST request and a server-side key that is set (and is text), the proxy
  forwards one body, and the fields of that body, as the upstream parses them, are the
  client's fields with \<^verbatim>\<open>api_key\<close> set to the server's key: exactly one \<^verbatim>\<open>api_key\<close> field,
  with the server's key, and the client's other fields in their order. Two POST requests
  whose fields differ only in the values of their \<^verbatim>\<open>api_key\<close> fields are forwarded as the
  same body and get the same answer. Two POST requests with the same other fields,
  wherever they have \<^verbatim>\<open>api_key\<close> fields or none, are forwarded with the same single
  \<^verbatim>\<open>api_key\<close> field and the same other fields in the same order; the place of the
  \<^verbatim>\<open>api_key\<close> field among them, and so the text, can differ.
\<close>

theorem handler_key_override:
  assumes "utf8_text k = k"
  shows
  "(method_r req = ''POST'' \<and> key = Some k \<and> k \<noteq> [] \<longrightarrow>
      (\<exists>t. forwarded (handler key fetch req) = [t] \<and>
           usp_parse t = usp_set (usp_parse (requestText req)) ''api_key'' k \<and>
           filter (\<lambda>p. fst p = ''api_key'') (usp_parse t) = [(''api_key'', k)] \<and>
           filter (\<lambda>p. fst p \<noteq> ''api_key'') (usp_parse t)
             = filter (\<lambda>p. fst p \<noteq> ''api_key'') (usp_parse (requestText req)))) \<and>
   (method_r r1 = ''POST'' \<and> method_r r2 = ''POST'' \<and>
    blank_key ''api_key'' (usp_parse (requestText r1))
      = blank_key ''api_key'' (usp_parse (requestText r2)) \<longrightarrow>
      forwarded (handler key fetch r1) = forwarded (handler key fetch r2) \<and>
      handler key fetch r1 = handler key fetch r2) \<and>
   (method_r r1 = ''POST'' \<and> method_r r2 = ''POST'' \<and> key = Some k \<and> k \<noteq> [] \<and>
    filter (\<lambda>p. fst p \<noteq> ''api_key'') (usp_parse (requestText r1))
      = filter (\<lambda>p. fst p \<noteq> ''api_key'') (usp_parse (requestText r2)) \<longrightarrow>
      (\<exists>t1 t2. forwarded (handler key fetch r1) = [t1] \<and>
               forwarded (handler key fetch r2) = [t2] \<and>
               filter (\<lambda>p. fst p = ''api_key'') (usp_parse t1)
                 = filter (\<lambda>p. fst p = ''api_key'') (usp_parse t2) \<and>
               filter (\<lambda>p. fst p \<noteq> ''api_key'') (usp_parse t1)
                 = filter (\<lambda>p. fst p \<noteq> ''api_key'') (usp_parse t2) \<and>
               mset (usp_parse t1) = mset (usp_parse t2)))"
proof (intro conjI impI)
  have name: "utf8_text ''api_key'' = ''api_key''" by (rule utf8_text_ascii) simp
  note rt = usp_parse_sent[OF name assms]
  {
    assume a: "method_r req = ''POST'' \<and> key = Some k \<and> k \<noteq> []"
    let ?t = "usp_toString (usp_set (usp_parse (requestText req)) ''api_key'' k)"
    from a have "forwarded (handler key fetch req) = [?t]" by (simp add: handler_forwarded)
    moreover have "usp_parse ?t = usp_set (usp_parse (requestText req)) ''api_key'' k"
      by (rule rt)
    ultimately show "\<exists>t. forwarded (handler key fetch req) = [t] \<and>
           usp_parse t = usp_set (usp_parse (requestText req)) ''api_key'' k \<and>
           filter (\<lambda>p. fst p = ''api_key'') (usp_parse t) = [(''api_key'', k)] \<and>
           filter (\<lambda>p. fst p \<noteq> ''api_key'') (usp_parse t)
             = filter (\<lambda>p. fst p \<noteq> ''api_key'') (usp_parse (requestText req))"
      by (simp add: usp_set_key usp_set_others)
  }
  {
    assume b: "method_r r1 = ''POST'' \<and> method_r r2 = ''POST'' \<and>
      blank_key ''api_key'' (usp_parse (requestText r1))
        = blank_key ''api_key'' (usp_parse (requestText r2))"
    have eq: "handler key fetch r1 = handler key fetch r2"
    proof (cases key)
      case None
      from b have "method_r r1 = method_r r2" by simp
      then have "handler None fetch r1 = handler None fetch r2" by (rule handler_no_key)
      with None show ?thesis by simp
    next
      case (Some k')
      from b have "usp_set (usp_parse (requestText r1)) ''api_key'' k'
               = usp_set (usp_parse (requestText r2)) ''api_key'' k'"
        by (intro usp_set_cong) simp
      moreover from b have "method_r r1 = method_r r2" by simp
      ultimately have "handler (Some k') fetch r1 = handler (Some k') fetch r2"
        by (intro handler_cong)
      with Some show ?thesis by simp
    qed
    then show "forwarded (handler key fetch r1) = forwarded (handler key fetch r2)" by simp
    from eq show "handler key fetch r1 = handler key fetch r2" .
  }
  {
    assume c: "method_r r1 = ''POST'' \<and> method_r r2 = ''POST'' \<and> key = Some k \<and> k \<noteq> [] \<and>
      filter (\<lambda>p. fst p \<noteq> ''api_key'') (usp_parse (requestText r1))
        = filter (\<lambda>p. fst p \<noteq> ''api_key'') (usp_parse (requestText r2))"
    let ?ps = "usp_set (usp_parse (requestText r1)) ''api_key'' k"
    let ?qs = "usp_set (usp_parse (requestText r2)) ''api_key'' k"
    from c have f: "forwarded (handler key fetch r1) = [usp_toString ?ps]"
      "forwarded (handler key fetch r2) = [usp_toString ?qs]"
      by (simp_all add: handler_forwarded)
    have p: "usp_parse (usp_toString ?ps) = ?ps" "usp_parse (usp_toString ?qs) = ?qs"
      by (rule rt)+
    from c have m: "mset ?ps = mset ?qs" by (simp add: usp_set_mset)
    have k: "filter (\<lambda>p. fst p = ''api_key'') ?ps = filter (\<lambda>p. fst p = ''api_key'') ?qs"
      by (simp add: usp_set_key)
    from c have o: "filter (\<lambda>p. fst p \<noteq> ''api_key'') ?ps = filter (\<lambda>p. fst p \<noteq> ''api_key'') ?qs"
      by (simp add: usp_set_others)
    from f m k o show "\<exists>t1 t2. forwarded (handler key fetch r1) = [t1] \<and>
               forwarded (handler key fetch r2) = [t2] \<and>
               filter (\<lambda>p. fst p = ''api_key'') (usp_parse t1)
                 = filter (\<lambda>p. fst p = ''api_key'') (usp_parse t2) \<and>
               filter (\<lambda>p. fst p \<noteq> ''api_key'') (usp_parse t1)
                 = filter (\<lambda>p. fst p \<noteq> ''api_key'') (usp_parse t2) \<and>
               mset (usp_parse t1) = mset (usp_parse t2)"
      by (intro exI[of _ "usp_toString ?ps"] exI[of _ "usp_toString ?qs"]) (simp only: p simp_thms)
  }
qed

theorem handler_key_override_witness:
  "forwarded (handler (Some ''SERVER'') upstream_ok (post_request ''api_key%3DEVIL%26z=1''))
     = [''api_key%3DEVIL%26z=1&api_key=SERVER''] \<and>
   usp_parse ''api_key%3DEVIL%26z=1&api_key=SERVER''
     = [(''api_key=EVIL&z'', ''1''), (''api_key'', ''SERVER'')] \<and>
   forwarded (handler (Some ''SERVER'') upstream_ok (post_request ''a=%FF''))
     = [''a=%EF%BF%BD&api_key=SERVER''] \<and>
   usp_parse ''a=%EF%BF%BD&api_key=SERVER'' = [(''a'', replacement), (''api_key'', ''SERVER'')] \<and>
   forwarded (handler (Some ''SERVER'') upstream_ok (post_request ''api_key=CLIENT&format=json&logs=1''))
     = [''api_key=SERVER&format=json&logs=1''] \<and>
   handler (Some ''SERVER'') upstream_ok (post_request ''api_key=CLIENT&format=json&logs=1'')
     = handler (Some ''SERVER'') upstream_ok (post_request ''api_key=u1234-other&format=json&logs=1'') \<and>
   mset (usp_parse ''api_key=SERVER&format=json&logs=1'')
     = mset (usp_parse ''format=json&logs=1&api_key=SERVER'')"
proof -
  let ?r1 = "post_request ''api_key=CLIENT&format=json&logs=1''"
  let ?r2 = "post_request ''api_key=u1234-other&format=json&logs=1''"
  let ?r3 = "post_request ''format=json&logs=1''"
  let ?r4 = "post_request ''api_key%3DEVIL%26z=1''"
  let ?r5 = "post_request ''a=%FF''"
  have k: "utf8_text ''SERVER'' = ''SERVER''" by (rule utf8_text_ascii) simp
  note h = handler_key_override[OF k, where key = "Some ''SERVER''" and fetch = upstream_ok]
  note h1 = h[THEN conjunct1, rule_format]
  note h2 = h[THEN conjunct2, THEN conjunct1, rule_format]
  note h3 = h[THEN conjunct2, THEN conjunct2, rule_format]
  have p: "\<And>b. method_r (post_request b) = ''POST'' \<and> Some ''SERVER'' = Some ''SERVER'' \<and> ''SERVER'' \<noteq> []"
    by (simp add: post_method)
  from h1[where req = ?r4, OF p] obtain t4 where
    t4: "forwarded (handler (Some ''SERVER'') upstream_ok ?r4) = [t4]"
        "usp_parse t4 = usp_set (usp_parse (requestText ?r4)) ''api_key'' ''SERVER''"
    by (elim exE conjE) (rule that)
  from t4(1) have "t4 = ''api_key%3DEVIL%26z=1&api_key=SERVER''"
    by (simp only: forwarded_bodies list.inject)
  with t4(2) have a: "usp_parse ''api_key%3DEVIL%26z=1&api_key=SERVER''
      = [(''api_key=EVIL&z'', ''1''), (''api_key'', ''SERVER'')]"
    by (simp add: request_texts parsed_bodies usp_set_def)
  from h1[where req = ?r5, OF p] obtain t5 where
    t5: "forwarded (handler (Some ''SERVER'') upstream_ok ?r5) = [t5]"
        "usp_parse t5 = usp_set (usp_parse (requestText ?r5)) ''api_key'' ''SERVER''"
    by (elim exE conjE) (rule that)
  from t5(1) have "t5 = ''a=%EF%BF%BD&api_key=SERVER''"
    by (simp only: forwarded_bodies list.inject)
  with t5(2) have b: "usp_parse ''a=%EF%BF%BD&api_key=SERVER''
      = [(''a'', replacement), (''api_key'', ''SERVER'')]"
    by (simp add: request_texts parsed_bodies usp_set_def)
  have bl: "method_r ?r1 = ''POST'' \<and> method_r ?r2 = ''POST'' \<and>
      blank_key ''api_key'' (usp_parse (requestText ?r1))
      = blank_key ''api_key'' (usp_parse (requestText ?r2))"
    by (simp add: post_method request_texts parsed_bodies blank_key_def)
  from h2[OF bl] have c: "handler (Some ''SERVER'') upstream_ok ?r1
      = handler (Some ''SERVER'') upstream_ok ?r2" by (rule conjunct2)
  have fl: "method_r ?r1 = ''POST'' \<and> method_r ?r3 = ''POST'' \<and>
      Some ''SERVER'' = Some ''SERVER'' \<and> ''SERVER'' \<noteq> [] \<and>
      filter (\<lambda>p. fst p \<noteq> ''api_key'') (usp_parse (requestText ?r1))
      = filter (\<lambda>p. fst p \<noteq> ''api_key'') (usp_parse (requestText ?r3))"
    by (simp add: post_method request_texts parsed_bodies)
  from h3[OF fl] obtain t1 t3 where
    t13: "forwarded (handler (Some ''SERVER'') upstream_ok ?r1) = [t1]"
         "forwarded (handler (Some ''SERVER'') upstream_ok ?r3) = [t3]"
         "mset (usp_parse t1) = mset (usp_parse t3)"
    by (elim exE conjE) (rule that)
  from t13(1,2) have "t1 = ''api_key=SERVER&format=json&logs=1''"
    "t3 = ''format=json&logs=1&api_key=SERVER''"
    by (simp_all only: forwarded_bodies list.inject)
  with t13(3) have d: "mset (usp_parse ''api_key=SERVER&format=json&logs=1'')
     = mset (usp_parse ''format=json&logs=1&api_key=SERVER'')"
    by (simp only:)
  show ?thesis
    by (intro conjI) (rule forwarded_bodies a b c d)+
qed

text \<open>
  Two bodies that differ only in that one has an \<^verbatim>\<open>api_key\<close> field and the other has none
  are forwarded as different texts.
\<close>

theorem key_position_counterexample:
  "method_r (post_request ''api_key=CLIENT&format=json&logs=1'') = ''POST'' \<and>
   method_r (post_request ''format=json&logs=1'') = ''POST'' \<and>
   filter (\<lambda>p. fst p \<noteq> ''api_key'') (usp_parse (requestText (post_request ''api_key=CLIENT&format=json&logs=1'')))
     = filter (\<lambda>p. fst p \<noteq> ''api_key'') (usp_parse (requestText (post_request ''format=json&logs=1''))) \<and>
   forwarded (handler (Some ''SERVER'') upstream_ok (post_request ''api_key=CLIENT&format=json&logs=1''))
     = [''api_key=SERVER&format=json&logs=1''] \<and>
   forwarded (handler (Some ''SERVER'') upstream_ok (post_request ''format=json&logs=1''))
     = [''format=json&logs=1&api_key=SERVER''] \<and>
   forwarded (handler (Some ''SERVER'') upstream_ok (post_request ''api_key=CLIENT&format=json&logs=1''))
     \<noteq> forwarded (handler (Some ''SERVER'') upstream_ok (post_request ''format=json&logs=1''))"
  by (simp add: forwarded_bodies request_texts parsed_bodies post_method)

end
